theory Spec2Isabelle
  imports Complex_Main
begin

section \<open>Python strings\<close>

text \<open>
  The scraper \<^verbatim>\<open>src/server/scrape_countryroad.py\<close> works on Python \<^verbatim>\<open>str\<close> values.
  They are modelled as \<^typ>\<open>string\<close>, a list of 8-bit characters, each standing for the
  code point of its number, so the model covers text of code points up to 255; the
  string methods below are the ones the scraper calls, each with the behaviour
  Python documents for it on such text.
\<close>

text \<open>\<^verbatim>\<open>s.lower()\<close>: the letters A to Z are replaced by a to z.\<close>

definition lower_char :: "char \<Rightarrow> char" where
  "lower_char ch =
     (case map_of (zip ''ABCDEFGHIJKLMNOPQRSTUVWXYZ'' ''abcdefghijklmnopqrstuvwxyz'') ch of
        Some l \<Rightarrow> l
      | None \<Rightarrow> ch)"

definition lower :: "string \<Rightarrow> string" where
  "lower s = map lower_char s"

text \<open>\<^verbatim>\<open>s.startswith(p)\<close>.\<close>

fun startswith :: "string \<Rightarrow> string \<Rightarrow> bool" where
  "startswith s [] = True"
| "startswith [] (p # ps) = False"
| "startswith (c # cs) (p # ps) = (c = p \<and> startswith cs ps)"

text \<open>\<^verbatim>\<open>sub in s\<close>: \<open>sub\<close> occurs in \<open>s\<close> as a contiguous substring.\<close>

fun contains :: "string \<Rightarrow> string \<Rightarrow> bool" where
  "contains [] sub = (sub = [])"
| "contains (c # cs) sub = (startswith (c # cs) sub \<or> contains cs sub)"

text \<open>
  \<^verbatim>\<open>s.replace(old, '')\<close>: every occurrence of \<open>old\<close> is removed, scanning from the
  left without overlap. With an empty \<open>old\<close> Python returns \<open>s\<close> itself.
\<close>

function replace_by_empty :: "string \<Rightarrow> string \<Rightarrow> string" where
  "replace_by_empty [] old = []"
| "replace_by_empty (c # cs) old =
     (if old \<noteq> [] \<and> startswith (c # cs) old
      then replace_by_empty (drop (length old) (c # cs)) old
      else c # replace_by_empty cs old)"
  by pat_completeness auto
termination
  by (relation "measure (\<lambda>(s, old). length s)") auto

text \<open>
  \<^verbatim>\<open>s.strip()\<close>: leading and trailing white space is removed. The white space of
  Python among the first 256 code points: the space, the controls 9 to 13 and 28 to
  31, the next-line control 0x85 and the no-break space 0xA0.
\<close>

definition isspace :: "char \<Rightarrow> bool" where
  "isspace ch = (ch \<in> set [CHR '' '', CHR 0x09, CHR 0x0A, CHR 0x0B, CHR 0x0C, CHR 0x0D,
                            CHR 0x1C, CHR 0x1D, CHR 0x1E, CHR 0x1F, CHR 0x85, CHR 0xA0])"

definition strip :: "string \<Rightarrow> string" where
  "strip s = rev (dropWhile isspace (rev (dropWhile isspace s)))"

text \<open>
  The truth value Python gives an \<^verbatim>\<open>Optional[str]\<close> in a condition: \<^verbatim>\<open>None\<close> and the
  empty string are false.
\<close>

fun truthy :: "string option \<Rightarrow> bool" where
  "truthy None = False"
| "truthy (Some s) = (s \<noteq> [])"

text \<open>\<^verbatim>\<open>str(n)\<close> of a natural number, as an f-string formats it.\<close>

function str_nat :: "nat \<Rightarrow> string" where
  "str_nat n =
     (if n < 10 then [''0123456789'' ! n]
      else str_nat (n div 10) @ [''0123456789'' ! (n mod 10)])"
  by pat_completeness auto
termination
  by (relation "measure id") auto

section \<open>Category classifier\<close>

text \<open>
  \<^verbatim>\<open>CATEGORY_KEYWORDS\<close> (lines 22 to 28). A Python dict keeps its insertion order, and
  \<^verbatim>\<open>map_category\<close> iterates in that order, so the table is an association list.
\<close>

definition CATEGORY_KEYWORDS :: "(string \<times> string list) list" where
  "CATEGORY_KEYWORDS =
     [(''tops'', [''shirt'', ''t-shirt'', ''tee'', ''polo'', ''knit'', ''sweat'', ''jumper'',
                  ''crew'', ''henley'', ''singlet'', ''tank'', ''top'']),
      (''bottoms'', [''pant'', ''pants'', ''jean'', ''short'', ''trouser'', ''chino'', ''track'',
                     ''jogger'', ''suit'']),
      (''shoes'', [''shoe'', ''sneaker'', ''boot'', ''loafer'', ''slide'', ''thong'']),
      (''outerwear'', [''jacket'', ''coat'', ''blazer'', ''overshirt'', ''duffle'']),
      (''accessories'', [''belt'', ''bag'', ''duffle'', ''wallet'', ''tie'', ''sock'', ''scarf'',
                         ''hat''])]"

text \<open>
  \<^verbatim>\<open>map_category\<close> (lines 47 to 53). The inner loop returns at the first keyword found
  in the lower-cased name; the outer loop tries the categories in table order and
  falls through to \<^verbatim>\<open>'tops'\<close>.
\<close>

fun keyword_loop :: "string list \<Rightarrow> string \<Rightarrow> bool" where
  "keyword_loop [] name_lower = False"
| "keyword_loop (kw # keywords) name_lower =
     (if contains name_lower kw then True else keyword_loop keywords name_lower)"

fun category_loop :: "(string \<times> string list) list \<Rightarrow> string \<Rightarrow> string" where
  "category_loop [] name_lower = ''tops''"
| "category_loop ((category, keywords) # items) name_lower =
     (if keyword_loop keywords name_lower then category
      else category_loop items name_lower)"

definition map_category :: "string \<Rightarrow> string" where
  "map_category name = category_loop CATEGORY_KEYWORDS (lower name)"

text \<open>
  The vocabulary of the classifier's contract: the declared categories in table
  order, and what it means for a name to contain a keyword of a category. The
  classifier tests the lower-cased name, and so does \<open>has_keyword_of\<close>.
\<close>

definition categories :: "string list" where
  "categories = map fst CATEGORY_KEYWORDS"

definition has_keyword_of :: "string \<Rightarrow> string \<Rightarrow> bool" where
  "has_keyword_of category name =
     (case map_of CATEGORY_KEYWORDS category of
        None \<Rightarrow> False
      | Some keywords \<Rightarrow> list_ex (contains (lower name)) keywords)"

section \<open>Parsing a price: \<^verbatim>\<open>float(text)\<close>\<close>

text \<open>
  The value of a Python float is kept as the exact decimal number that the text
  denotes, or as one of the special values; the rounding of that number to a
  binary64 is not modelled. Rounding never changes the sign of a number, and it
  never turns a text that parses into one that does not.
\<close>

datatype pyfloat = Float rat | Infinity bool | NaN

datatype error =
    ValueError string
  | KeyError string
  | AttributeError
  | GoogleAPICallError

text \<open>
  The grammar \<^verbatim>\<open>float\<close> accepts, from the Python language reference:
  \<^verbatim>\<open>
  digitpart   ::= digit (["_"] digit)*
  number      ::= [digitpart] "." digitpart | digitpart ["."]
  exponent    ::= ("e" | "E") [sign] digitpart
  floatvalue  ::= [sign] (number [exponent] | "inf" | "infinity" | "nan")
  \<close>
  with white space around it ignored and the three words in any letter case. Any
  other text raises \<^verbatim>\<open>ValueError\<close>.
\<close>

definition isdigit :: "char \<Rightarrow> bool" where
  "isdigit ch = (ch \<in> set ''0123456789'')"

definition digit_val :: "char \<Rightarrow> nat" where
  "digit_val ch = length (takeWhile (\<lambda>d. d \<noteq> ch) ''0123456789'')"

definition digits_val :: "string \<Rightarrow> nat" where
  "digits_val ds = foldl (\<lambda>a d. 10 * a + digit_val d) 0 ds"

text \<open>The longest \<^verbatim>\<open>digitpart\<close> at the front of a text: its digits, and the text left.\<close>

fun digitpart :: "string \<Rightarrow> string \<times> string" where
  "digitpart [] = ([], [])"
| "digitpart [c] = (if isdigit c then ([c], []) else ([], [c]))"
| "digitpart (c # u # r) =
     (if \<not> isdigit c then ([], c # u # r)
      else if u = CHR ''_'' \<and> r \<noteq> [] \<and> isdigit (hd r) then apfst ((#) c) (digitpart r)
      else if isdigit u then apfst ((#) c) (digitpart (u # r))
      else ([c], u # r))"

definition parse_sign :: "string \<Rightarrow> bool \<times> string" where
  "parse_sign s =
     (case s of
        [] \<Rightarrow> (False, [])
      | c # cs \<Rightarrow>
          if c = CHR ''-'' then (True, cs)
          else if c = CHR ''+'' then (False, cs)
          else (False, s))"

definition parse_number :: "string \<Rightarrow> (string \<times> string \<times> string) option" where
  "parse_number s =
     (let (ip, r1) = digitpart s in
      case r1 of
        [] \<Rightarrow> if ip = [] then None else Some (ip, [], [])
      | c # r2 \<Rightarrow>
          if c = CHR ''.'' then
            (let (fp, r3) = digitpart r2 in
             if ip = [] \<and> fp = [] then None else Some (ip, fp, r3))
          else if ip = [] then None
          else Some (ip, [], r1))"

definition parse_exponent :: "string \<Rightarrow> int option" where
  "parse_exponent r =
     (case r of
        [] \<Rightarrow> Some 0
      | c # r1 \<Rightarrow>
          if c = CHR ''e'' \<or> c = CHR ''E'' then
            (let (neg, r2) = parse_sign r1; (ds, r3) = digitpart r2 in
             if ds = [] \<or> r3 \<noteq> [] then None
             else Some (if neg then - int (digits_val ds) else int (digits_val ds)))
          else None)"

definition pow10 :: "int \<Rightarrow> rat" where
  "pow10 e = (if 0 \<le> e then 10 ^ nat e else 1 / 10 ^ nat (- e))"

definition py_float :: "string \<Rightarrow> error + pyfloat" where
  "py_float text =
     (let (neg, body) = parse_sign (strip text); word = lower body in
      if word = ''inf'' \<or> word = ''infinity'' then Inr (Infinity neg)
      else if word = ''nan'' then Inr NaN
      else
        case parse_number body of
          None \<Rightarrow> Inl (ValueError text)
        | Some (ip, fp, r) \<Rightarrow>
            (case parse_exponent r of
               None \<Rightarrow> Inl (ValueError text)
             | Some ex \<Rightarrow>
                 Inr (Float ((if neg then - 1 else 1) * of_nat (digits_val (ip @ fp))
                             * pow10 (ex - int (length fp))))))"

text \<open>A float that is a number and not below zero.\<close>

fun non_negative :: "pyfloat \<Rightarrow> bool" where
  "non_negative (Float q) = (0 \<le> q)"
| "non_negative (Infinity neg) = False"
| "non_negative NaN = False"

section \<open>Product cards, documents and the collaborators\<close>

text \<open>
  What \<^verbatim>\<open>scrape_page\<close> reads of one element returned by
  \<^verbatim>\<open>soup.find_all('section', {'data-type': 'ProductCard'})\<close>, one field for each of
  its four queries on the element:
  \<^item> \<open>name_tag\<close>: \<^verbatim>\<open>section.find(['h2', 'a'], string=True)\<close>; \<open>None\<close> when there is no
    such tag, otherwise the tag's \<^verbatim>\<open>get_text(strip=True)\<close>;
  \<^item> \<open>link_tag\<close>: \<^verbatim>\<open>section.find('a', href=True)\<close>; \<open>None\<close> when there is no such tag,
    otherwise the value of its \<^verbatim>\<open>href\<close>;
  \<^item> \<open>img_tag\<close>: \<^verbatim>\<open>section.find('img')\<close>; \<open>None\<close> when there is no image, otherwise the
    attributes of the first one;
  \<^item> \<open>price_tag\<close>: \<^verbatim>\<open>section.find('span', class_='value')\<close>; \<open>None\<close> when there is no
    such tag, otherwise the tag's \<^verbatim>\<open>get_text(strip=True)\<close>.
\<close>

record product_card =
  name_tag :: "string option"
  link_tag :: "string option"
  img_tag :: "(string \<times> string) list option"
  price_tag :: "string option"

text \<open>
  The values a product dict and a stored document hold. \<open>SERVER_TIMESTAMP\<close> is the
  sentinel \<^verbatim>\<open>firestore.SERVER_TIMESTAMP\<close> the client sends; the store replaces it by
  its own time, a \<open>Timestamp\<close>.
\<close>

datatype fvalue =
    Str string
  | Number pyfloat
  | Dict "(string \<times> fvalue) list"
  | SERVER_TIMESTAMP
  | Timestamp nat

type_synonym pydict = "(string \<times> fvalue) list"

type_synonym document = "string \<rightharpoonup> fvalue"

text \<open>
  Everything the scraper does to the outside, in the order it happens: the requests
  it issues, the writes the store accepted, its pauses, and a constructor for each
  of its seven \<^verbatim>\<open>print\<close> statements.
\<close>

datatype event =
    Get string
  | Set_merge string pydict
  | Sleep nat
  | Print_scraping string
  | Print_failed_to_fetch string
  | Print_error_parsing error
  | Print_found nat string
  | Print_subcategory string
  | Print_no_more nat string
  | Print_finished nat

text \<open>
  The state: the collection \<^verbatim>\<open>retailer_products\<close> (document id to document), the
  store's clock, which ticks once for every write request it receives, and the trace
  of events so far.
\<close>

record state =
  db :: "string \<rightharpoonup> document"
  clock :: nat
  trace :: "event list"

text \<open>
  The libraries and services the scraper calls, as parameters of the model:
  \<^item> \<open>md5_hexdigest url\<close>: \<^verbatim>\<open>hashlib.md5(url.encode()).hexdigest()\<close>;
  \<^item> \<open>requests_get page_url\<close>: \<^verbatim>\<open>requests.get(page_url, headers=HEADERS, timeout=15)\<close>
    followed by \<^verbatim>\<open>raise_for_status()\<close>; \<open>None\<close> when either raises a
    \<^verbatim>\<open>RequestException\<close> (time-out, connection error, error status), otherwise
    \<^verbatim>\<open>resp.text\<close>;
  \<^item> \<open>find_all_product_cards text\<close>: the product cards \<^verbatim>\<open>BeautifulSoup\<close> finds in the
    markup, in document order;
  \<^item> \<open>store_accepts t\<close>: whether the store carries out the write request it receives
    at its time \<open>t\<close>, or the client call raises.
\<close>

record collaborators =
  md5_hexdigest :: "string \<Rightarrow> string"
  requests_get :: "string \<Rightarrow> string option"
  find_all_product_cards :: "string \<Rightarrow> product_card list"
  store_accepts :: "nat \<Rightarrow> bool"

definition emit :: "event \<Rightarrow> state \<Rightarrow> state" where
  "emit e s = s\<lparr>trace := trace s @ [e]\<rparr>"

section \<open>Identity and persistence\<close>

text \<open>
  Modelled from the spec: the catalog store's merge-set, which is the Firestore
  service behind \<^verbatim>\<open>document(doc_id).set(product, merge=True)\<close> and not part of the
  sources. Sections 4.3 and 6 of the spec: fields present in the record overwrite the
  stored document, fields absent are left untouched, a document that does not exist
  is created, and \<^verbatim>\<open>scrapedAt\<close>, sent as the server-time sentinel, is set to the
  current server time. A write the store does not accept raises in the client and
  leaves the collection as it was.
\<close>

definition resolve_sentinels :: "nat \<Rightarrow> pydict \<Rightarrow> pydict" where
  "resolve_sentinels t data =
     map (\<lambda>(k, v). (k, if v = SERVER_TIMESTAMP then Timestamp t else v)) data"

definition stored_fields :: "state \<Rightarrow> string \<Rightarrow> document" where
  "stored_fields s doc_id = (case db s doc_id of None \<Rightarrow> Map.empty | Some d \<Rightarrow> d)"

definition set_merge ::
    "collaborators \<Rightarrow> string \<Rightarrow> pydict \<Rightarrow> state \<Rightarrow> (error + unit) \<times> state" where
  "set_merge env doc_id data s =
     (let t = clock s; s1 = s\<lparr>clock := t + 1\<rparr> in
      if store_accepts env t then
        (Inr (),
         emit (Set_merge doc_id data)
           (s1\<lparr>db := (db s)(doc_id \<mapsto>
                         stored_fields s doc_id ++ map_of (resolve_sentinels t data))\<rparr>))
      else (Inl GoogleAPICallError, s1))"

text \<open>
  \<^verbatim>\<open>save_product_to_firestore\<close> (lines 55 to 57). \<^verbatim>\<open>product['productUrl']\<close> raises
  \<^verbatim>\<open>KeyError\<close> on a dict without the key, and \<^verbatim>\<open>.encode()\<close> raises
  \<^verbatim>\<open>AttributeError\<close> on a value that is not a string.
\<close>

definition save_product_to_firestore ::
    "collaborators \<Rightarrow> pydict \<Rightarrow> state \<Rightarrow> (error + unit) \<times> state" where
  "save_product_to_firestore env product s =
     (case map_of product ''productUrl'' of
        None \<Rightarrow> (Inl (KeyError ''productUrl''), s)
      | Some (Str url) \<Rightarrow>
          (let doc_id = md5_hexdigest env url in set_merge env doc_id product s)
      | Some _ \<Rightarrow> (Inl AttributeError, s))"

section \<open>Page extractor\<close>

text \<open>
  Lines 79 to 80 for the product link and 83 to 84 for the image source: a value
  that is not empty and does not start with \<^verbatim>\<open>http\<close> gets the site's origin in front.
\<close>

definition add_origin :: "string option \<Rightarrow> string option" where
  "add_origin u =
     (case u of
        None \<Rightarrow> None
      | Some v \<Rightarrow>
          if v \<noteq> [] \<and> \<not> startswith v ''http''
          then Some (''https://www.countryroad.co.nz'' @ v)
          else Some v)"

text \<open>Lines 85 to 87: the price text, and the float parsed from it.\<close>

definition clean_price :: "string \<Rightarrow> string" where
  "clean_price price_text =
     strip (replace_by_empty (replace_by_empty (replace_by_empty price_text ''NZD'') ''$'') '','')"

definition parse_price :: "string option \<Rightarrow> error + pyfloat option" where
  "parse_price price_text =
     (case price_text of
        None \<Rightarrow> Inr None
      | Some t \<Rightarrow>
          if t = [] then Inr None
          else (case py_float (clean_price t) of Inl e \<Rightarrow> Inl e | Inr x \<Rightarrow> Inr (Some x)))"

text \<open>The dict literal of lines 91 to 101.\<close>

definition product_dict ::
    "string \<Rightarrow> pyfloat \<Rightarrow> string \<Rightarrow> string \<Rightarrow> string \<Rightarrow> string \<Rightarrow> pydict" where
  "product_dict name price image_url product_url category color =
     [(''name'', Str name),
      (''brand'', Str ''Country Road''),
      (''price'', Number price),
      (''imageUrl'', Str image_url),
      (''productUrl'', Str product_url),
      (''category'', Str category),
      (''color'', Str color),
      (''retailer'', Dict [(''id'', Str ''countryroad''), (''name'', Str ''Country Road'')]),
      (''scrapedAt'', SERVER_TIMESTAMP)]"

text \<open>
  The body of the \<^verbatim>\<open>try\<close> of lines 75 to 103, for one card: the number it adds to
  \<^verbatim>\<open>products_found\<close>, or the exception that leaves the body, and the state after it.
\<close>

definition scrape_card ::
    "collaborators \<Rightarrow> product_card \<Rightarrow> state \<Rightarrow> (error + nat) \<times> state" where
  "scrape_card env section s =
     (let name = name_tag section;
          product_url = add_origin (link_tag section);
          image_url = add_origin (case img_tag section of
                                    None \<Rightarrow> None
                                  | Some attrs \<Rightarrow> map_of attrs ''src'');
          price_text = price_tag section
      in case parse_price price_text of
           Inl e \<Rightarrow> (Inl e, s)
         | Inr price \<Rightarrow>
             (let category = (if truthy name then map_category (the name) else ''tops'');
                  color = []
              in if truthy name \<and> truthy product_url \<and> truthy image_url \<and> price \<noteq> None then
                   (case save_product_to_firestore env
                           (product_dict (the name) (the price) (the image_url)
                              (the product_url) category color) s of
                      (Inl e, s1) \<Rightarrow> (Inl e, s1)
                    | (Inr u, s1) \<Rightarrow> (Inr 1, s1))
                 else (Inr 0, s)))"

text \<open>
  The \<^verbatim>\<open>for\<close> loop of lines 73 to 105 with its \<^verbatim>\<open>except Exception\<close>: an exception
  of one card is printed and the loop goes on with the next card.
\<close>

fun scrape_cards ::
    "collaborators \<Rightarrow> product_card list \<Rightarrow> nat \<Rightarrow> state \<Rightarrow> nat \<times> state" where
  "scrape_cards env [] products_found s = (products_found, s)"
| "scrape_cards env (section # sections) products_found s =
     (case scrape_card env section s of
        (Inr k, s1) \<Rightarrow> scrape_cards env sections (products_found + k) s1
      | (Inl e, s1) \<Rightarrow>
          scrape_cards env sections products_found (emit (Print_error_parsing e) s1))"

text \<open>\<^verbatim>\<open>scrape_page\<close> (lines 59 to 107).\<close>

definition page_url_of :: "string \<Rightarrow> nat \<Rightarrow> string" where
  "page_url_of url page_number =
     (if page_number = 1 then url else url @ ''?src=i&page='' @ str_nat page_number)"

definition scrape_page :: "collaborators \<Rightarrow> string \<Rightarrow> nat \<Rightarrow> state \<Rightarrow> nat \<times> state" where
  "scrape_page env url page_number s =
     (let page_url = page_url_of url page_number;
          s1 = emit (Get page_url) (emit (Print_scraping page_url) s)
      in case requests_get env page_url of
           None \<Rightarrow> (0, emit (Print_failed_to_fetch page_url) s1)
         | Some text \<Rightarrow>
             (let (products_found, s2) =
                    scrape_cards env (find_all_product_cards env text) 0 s1
              in (products_found, emit (Print_found products_found page_url) s2)))"

section \<open>Crawl controller\<close>

definition SUBCATEGORY_URLS :: "string list" where
  "SUBCATEGORY_URLS =
     [''https://www.countryroad.co.nz/man-clothing-chinos/'',
      ''https://www.countryroad.co.nz/man-clothing-pants/'',
      ''https://www.countryroad.co.nz/man-clothing-denim-jeans/'',
      ''https://www.countryroad.co.nz/man-clothing-shorts/'',
      ''https://www.countryroad.co.nz/man-clothing-suits-tailoring/'',
      ''https://www.countryroad.co.nz/man-clothing-knitwear/'',
      ''https://www.countryroad.co.nz/man-clothing-t-shirts/'',
      ''https://www.countryroad.co.nz/man-clothing-polos/'',
      ''https://www.countryroad.co.nz/man-clothing-casual-shirts/'',
      ''https://www.countryroad.co.nz/man-clothing-business-shirts/'',
      ''https://www.countryroad.co.nz/man-clothing-jackets-coats/'',
      ''https://www.countryroad.co.nz/man-clothing-blazers/'',
      ''https://www.countryroad.co.nz/man-clothing-sweats/'',
      ''https://www.countryroad.co.nz/man-clothing-swimwear/'']"

text \<open>\<^verbatim>\<open>range(a, b)\<close>.\<close>

definition range :: "nat \<Rightarrow> nat \<Rightarrow> nat list" where
  "range a b = [a..<b]"

text \<open>
  The inner loop of \<^verbatim>\<open>main\<close> (lines 113 to 119) over the page numbers left to try,
  with \<^verbatim>\<open>total_products\<close> passed along: a page that scraped nothing ends the loop.
\<close>

fun scrape_pages ::
    "collaborators \<Rightarrow> string \<Rightarrow> nat list \<Rightarrow> nat \<Rightarrow> state \<Rightarrow> nat \<times> state" where
  "scrape_pages env subcat_url [] total_products s = (total_products, s)"
| "scrape_pages env subcat_url (page_num # page_nums) total_products s =
     (let (num_scraped, s1) = scrape_page env subcat_url page_num s in
      if num_scraped = 0 then (total_products, emit (Print_no_more page_num subcat_url) s1)
      else scrape_pages env subcat_url page_nums (total_products + num_scraped)
             (emit (Sleep 2) s1))"

text \<open>The outer loop of \<^verbatim>\<open>main\<close> (lines 111 to 119) over the sections left.\<close>

fun scrape_subcategories ::
    "collaborators \<Rightarrow> string list \<Rightarrow> nat \<Rightarrow> state \<Rightarrow> nat \<times> state" where
  "scrape_subcategories env [] total_products s = (total_products, s)"
| "scrape_subcategories env (subcat_url # subcat_urls) total_products s =
     (let (total1, s1) =
            scrape_pages env subcat_url (range 1 8) total_products
              (emit (Print_subcategory subcat_url) s)
      in scrape_subcategories env subcat_urls total1 s1)"

text \<open>\<^verbatim>\<open>main\<close> (lines 109 to 120).\<close>

definition main :: "collaborators \<Rightarrow> state \<Rightarrow> state" where
  "main env s =
     (let (total_products, s1) = scrape_subcategories env SUBCATEGORY_URLS 0 s
      in emit (Print_finished total_products) s1)"

section \<open>Vocabulary of the properties\<close>

text \<open>
  What is read off a trace: the URLs requested, the writes the store accepted
  (document id and the dict sent), and the exceptions printed by the card loop.
\<close>

fun gets :: "event list \<Rightarrow> string list" where
  "gets [] = []"
| "gets (Get u # es) = u # gets es"
| "gets (e # es) = gets es"

fun writes :: "event list \<Rightarrow> (string \<times> pydict) list" where
  "writes [] = []"
| "writes (Set_merge doc_id data # es) = (doc_id, data) # writes es"
| "writes (e # es) = writes es"

fun errors_logged :: "event list \<Rightarrow> error list" where
  "errors_logged [] = []"
| "errors_logged (Print_error_parsing x # es) = x # errors_logged es"
| "errors_logged (e # es) = errors_logged es"

text \<open>The two events the card loop can add to the trace.\<close>

fun card_event :: "event \<Rightarrow> bool" where
  "card_event (Set_merge doc_id data) = True"
| "card_event (Print_error_parsing x) = True"
| "card_event e = False"

text \<open>
  The report of a page that scraped nothing: a failed fetch, or a count of zero. A
  trace has no request after such a report when \<open>no_get_after_zero_yield\<close> holds.
\<close>

fun zero_yield :: "event \<Rightarrow> bool" where
  "zero_yield (Print_failed_to_fetch u) = True"
| "zero_yield (Print_found n u) = (n = 0)"
| "zero_yield e = False"

fun no_get_after_zero_yield :: "event list \<Rightarrow> bool" where
  "no_get_after_zero_yield [] = True"
| "no_get_after_zero_yield (e # es) =
     ((if zero_yield e then gets es = [] else True) \<and> no_get_after_zero_yield es)"

text \<open>
  What a card offers: the \<^verbatim>\<open>src\<close> of its image, whether its price text is there and
  parses, whether parsing it raises, and the record \<^verbatim>\<open>scrape_page\<close> builds from the
  card when all four values are there.
\<close>

definition image_src :: "product_card \<Rightarrow> string option" where
  "image_src pc = (case img_tag pc of None \<Rightarrow> None | Some attrs \<Rightarrow> map_of attrs ''src'')"

definition price_parses :: "product_card \<Rightarrow> bool" where
  "price_parses pc =
     (case parse_price (price_tag pc) of Inr (Some x) \<Rightarrow> True | Inr None \<Rightarrow> False | Inl e \<Rightarrow> False)"

definition price_raises :: "product_card \<Rightarrow> bool" where
  "price_raises pc = (case parse_price (price_tag pc) of Inl e \<Rightarrow> True | Inr p \<Rightarrow> False)"

definition fully_formed :: "product_card \<Rightarrow> bool" where
  "fully_formed pc =
     (truthy (name_tag pc) \<and> truthy (link_tag pc) \<and> truthy (image_src pc)
      \<and> price_parses pc)"

definition card_record :: "product_card \<Rightarrow> pydict option" where
  "card_record pc =
     (case (name_tag pc, add_origin (link_tag pc), add_origin (image_src pc),
            parse_price (price_tag pc)) of
        (Some name, Some product_url, Some image_url, Inr (Some price)) \<Rightarrow>
          if name \<noteq> [] \<and> product_url \<noteq> [] \<and> image_url \<noteq> []
          then Some (product_dict name price image_url product_url (map_category name) [])
          else None
      | _ \<Rightarrow> None)"

text \<open>
  The reading of "fully formed" in the data model of the spec, which asks for a
  price that is a number and not negative.
\<close>

definition spec_fully_formed :: "product_card \<Rightarrow> bool" where
  "spec_fully_formed pc =
     (truthy (name_tag pc) \<and> truthy (link_tag pc) \<and> truthy (image_src pc)
      \<and> (case parse_price (price_tag pc) of
            Inr (Some x) \<Rightarrow> non_negative x
          | Inr None \<Rightarrow> False
          | Inl e \<Rightarrow> False))"

text \<open>
  A URL starts with a scheme (RFC 3986) when a letter, then letters, digits,
  \<^verbatim>\<open>+\<close>, \<^verbatim>\<open>-\<close> or \<^verbatim>\<open>.\<close>, are followed by a colon.
\<close>

definition isalpha :: "char \<Rightarrow> bool" where
  "isalpha ch = (ch \<in> set ''abcdefghijklmnopqrstuvwxyzABCDEFGHIJKLMNOPQRSTUVWXYZ'')"

definition scheme_char :: "char \<Rightarrow> bool" where
  "scheme_char ch = (isalpha ch \<or> isdigit ch \<or> ch \<in> set ''+-.'')"

definition has_scheme :: "string \<Rightarrow> bool" where
  "has_scheme u =
     (case u of
        [] \<Rightarrow> False
      | c # cs \<Rightarrow>
          isalpha c \<and> (case dropWhile scheme_char cs of [] \<Rightarrow> False | d # r \<Rightarrow> d = CHR '':''))"

text \<open>
  The write a fully formed card leads to: the document id, which is the hash of its
  product URL, and the record. A write \<open>w\<close> comes from a card when it is the write of
  some fully formed card.
\<close>

definition card_write :: "collaborators \<Rightarrow> product_card \<Rightarrow> string \<times> pydict" where
  "card_write env pc =
     (md5_hexdigest env (the (add_origin (link_tag pc))), the (card_record pc))"

definition from_card :: "collaborators \<Rightarrow> string \<times> pydict \<Rightarrow> bool" where
  "from_card env w = (\<exists>pc. fully_formed pc \<and> w = card_write env pc)"

section \<open>Example inputs\<close>

text \<open>
  A store that is empty at time 0; a hash that stands in for MD5 in the examples (the
  examples never compare two document ids); a store that accepts every write.
\<close>

definition s0 :: state where
  "s0 = \<lparr>db = Map.empty, clock = 0, trace = []\<rparr>"

definition shirt :: product_card where
  "shirt = \<lparr>name_tag = Some ''Linen Shirt'', link_tag = Some ''/linen-shirt-60291.html'',
            img_tag = Some [(''alt'', ''Linen Shirt''), (''src'', ''/img/60291.jpg'')],
            price_tag = Some ''NZD $1,129.00''\<rparr>"

definition site :: "(string \<Rightarrow> string option) \<Rightarrow> (string \<Rightarrow> product_card list) \<Rightarrow> collaborators" where
  "site pages cards =
     \<lparr>md5_hexdigest = (\<lambda>url. ''md5:'' @ url), requests_get = pages,
      find_all_product_cards = cards, store_accepts = (\<lambda>t. True)\<rparr>"

definition refund :: product_card where
  "refund = shirt\<lparr>price_tag := Some ''-$5.00''\<rparr>"

definition no_price :: product_card where
  "no_price = shirt\<lparr>price_tag := None\<rparr>"

definition bad_price :: product_card where
  "bad_price = shirt\<lparr>price_tag := Some ''From $50''\<rparr>"

definition offline :: collaborators where
  "offline = site (\<lambda>url. None) (\<lambda>text. [])"

text \<open>
  A section with two pages: the first shows \<open>shirt\<close>, the second only a card without a
  price, and every further request fails.
\<close>

definition chinos :: string where
  "chinos = ''https://www.countryroad.co.nz/man-clothing-chinos/''"

definition two_pages :: collaborators where
  "two_pages =
     site (\<lambda>url. if url = chinos then Some ''<page 1>''
                 else if url = chinos @ ''?src=i&page=2'' then Some ''<page 2>''
                 else None)
          (\<lambda>markup. if markup = ''<page 1>'' then [shirt]
                    else if markup = ''<page 2>'' then [no_price]
                    else [])"

text \<open>
  The card \<open>shirt\<close> under another product link, and a page of five cards of which the
  third has no price tag and the other four differ in their links, followed by a page
  of three cards of which the second has the price text \<^verbatim>\<open>From $50\<close>.
\<close>

definition item :: "string \<Rightarrow> product_card" where
  "item slug = shirt\<lparr>link_tag := Some (''/'' @ slug)\<rparr>"

definition five_cards :: collaborators where
  "five_cards =
     site (\<lambda>url. if url = chinos then Some ''<five cards>''
                 else if url = chinos @ ''?src=i&page=2'' then Some ''<three cards>''
                 else None)
          (\<lambda>markup. if markup = ''<five cards>''
                    then [item ''a'', item ''b'', no_price, item ''c'', item ''d'']
                    else if markup = ''<three cards>''
                    then [item ''e'', bad_price, item ''f'']
                    else [])"



text \<open>
  The record \<^verbatim>\<open>scrape_page\<close> builds from \<open>shirt\<close>, and a later write by another client
  to the same product that sends only the URL and a colour.
\<close>

definition shirt_url :: string where
  "shirt_url = ''https://www.countryroad.co.nz/linen-shirt-60291.html''"

definition shirt_record :: pydict where
  "shirt_record =
     product_dict ''Linen Shirt'' (Float 1129) ''https://www.countryroad.co.nz/img/60291.jpg''
       shirt_url ''tops'' []"

definition navy_update :: pydict where
  "navy_update = [(''productUrl'', Str shirt_url), (''color'', Str ''navy'')]"

text \<open>
  Two cards whose URLs the rewriting treats unexpectedly: a product link that is a
  relative path starting with the letters \<^verbatim>\<open>http\<close>, and an image given as a \<^verbatim>\<open>data:\<close> URL.
\<close>

definition relative_link :: product_card where
  "relative_link = shirt\<lparr>link_tag := Some ''httpx/y''\<rparr>"

definition data_image :: string where
  "data_image = ''data:image/gif;base64,R0lGOD''"

section \<open>The classifier returns the first category with a keyword in the name\<close>

lemma categories_eq:
  "categories = [''tops'', ''bottoms'', ''shoes'', ''outerwear'', ''accessories'']"
  by (simp add: categories_def CATEGORY_KEYWORDS_def)

lemma keyword_loop_list_ex:
  "keyword_loop kws name_lower = list_ex (contains name_lower) kws"
  by (induction kws) auto

lemma map_category_cases:
  "map_category name =
     (if has_keyword_of ''tops'' name then ''tops''
      else if has_keyword_of ''bottoms'' name then ''bottoms''
      else if has_keyword_of ''shoes'' name then ''shoes''
      else if has_keyword_of ''outerwear'' name then ''outerwear''
      else if has_keyword_of ''accessories'' name then ''accessories''
      else ''tops'')"
  unfolding map_category_def has_keyword_of_def CATEGORY_KEYWORDS_def
  by (simp add: keyword_loop_list_ex)

lemma map_category_in_categories: "map_category name \<in> set categories"
  by (simp add: map_category_cases categories_eq)

text \<open>
  C3. For a name that contains a keyword of exactly one category, \<open>map_category\<close>
  returns that category; for a name that contains keywords of exactly two categories,
  it returns the one declared earlier in the table; for a name that contains no
  keyword, and for the empty name, it returns \<^verbatim>\<open>'tops'\<close>. Containment is tested on the
  lower-cased name, as the classifier does.
\<close>

theorem map_category_classifies:
  "(\<forall>c\<in>set categories. (\<forall>c'\<in>set categories. has_keyword_of c' name \<longleftrightarrow> c' = c)
       \<longrightarrow> map_category name = c)
   \<and> (\<forall>i j. i < j \<and> j < length categories
         \<and> (\<forall>c'\<in>set categories. has_keyword_of c' name
                \<longleftrightarrow> c' = categories ! i \<or> c' = categories ! j)
       \<longrightarrow> map_category name = categories ! i)
   \<and> ((\<forall>c\<in>set categories. \<not> has_keyword_of c name) \<longrightarrow> map_category name = ''tops'')
   \<and> map_category [] = ''tops''"
proof (intro conjI)
  show "\<forall>c\<in>set categories. (\<forall>c'\<in>set categories. has_keyword_of c' name \<longleftrightarrow> c' = c)
       \<longrightarrow> map_category name = c"
    unfolding categories_eq by (simp add: map_category_cases)
next
  show "\<forall>i j. i < j \<and> j < length categories
         \<and> (\<forall>c'\<in>set categories. has_keyword_of c' name
                \<longleftrightarrow> c' = categories ! i \<or> c' = categories ! j)
       \<longrightarrow> map_category name = categories ! i"
  proof (intro allI impI)
    fix i j :: nat
    assume h: "i < j \<and> j < length categories
         \<and> (\<forall>c'\<in>set categories. has_keyword_of c' name
                \<longleftrightarrow> c' = categories ! i \<or> c' = categories ! j)"
    then have "j < 5" by (simp add: categories_eq)
    then consider "j = 0" | "j = 1" | "j = 2" | "j = 3" | "j = 4" by linarith
    then show "map_category name = categories ! i"
    proof cases
      case 1 with h show ?thesis by simp
    next
      case 2
      with h have "i = 0" by simp
      with 2 h show ?thesis unfolding categories_eq by (simp add: map_category_cases)
    next
      case 3
      with h consider "i = 0" | "i = 1" by linarith
      then show ?thesis using 3 h unfolding categories_eq
        by cases (simp_all add: map_category_cases)
    next
      case 4
      with h consider "i = 0" | "i = 1" | "i = 2" by linarith
      then show ?thesis using 4 h unfolding categories_eq
        by cases (simp_all add: map_category_cases)
    next
      case 5
      with h consider "i = 0" | "i = 1" | "i = 2" | "i = 3" by linarith
      then show ?thesis using 5 h unfolding categories_eq
        by cases (simp_all add: map_category_cases)
    qed
  qed
next
  show "(\<forall>c\<in>set categories. \<not> has_keyword_of c name) \<longrightarrow> map_category name = ''tops''"
    unfolding categories_eq by (simp add: map_category_cases)
next
  show "map_category [] = ''tops''"
    by (simp add: map_category_def CATEGORY_KEYWORDS_def lower_def)
qed

text \<open>
  The theorem at three names: only \<^verbatim>\<open>belt\<close> occurs in the first, so it is an
  accessory; \<^verbatim>\<open>chino\<close>, \<^verbatim>\<open>short\<close> and \<^verbatim>\<open>belt\<close> occur in the second, and bottoms are
  declared before accessories; no keyword occurs in the third.
\<close>

theorem map_category_classifies_witness:
  "has_keyword_of ''accessories'' ''Leather Belt''
   \<and> \<not> has_keyword_of ''tops'' ''Leather Belt''
   \<and> \<not> has_keyword_of ''bottoms'' ''Leather Belt''
   \<and> \<not> has_keyword_of ''shoes'' ''Leather Belt''
   \<and> \<not> has_keyword_of ''outerwear'' ''Leather Belt''
   \<and> map_category ''Leather Belt'' = ''accessories''
   \<and> has_keyword_of ''bottoms'' ''Chino Short Belt''
   \<and> has_keyword_of ''accessories'' ''Chino Short Belt''
   \<and> \<not> has_keyword_of ''tops'' ''Chino Short Belt''
   \<and> \<not> has_keyword_of ''shoes'' ''Chino Short Belt''
   \<and> \<not> has_keyword_of ''outerwear'' ''Chino Short Belt''
   \<and> map_category ''Chino Short Belt'' = ''bottoms''
   \<and> \<not> has_keyword_of ''tops'' ''Sunglasses''
   \<and> \<not> has_keyword_of ''bottoms'' ''Sunglasses''
   \<and> \<not> has_keyword_of ''shoes'' ''Sunglasses''
   \<and> \<not> has_keyword_of ''outerwear'' ''Sunglasses''
   \<and> \<not> has_keyword_of ''accessories'' ''Sunglasses''
   \<and> map_category ''Sunglasses'' = ''tops''"
proof -
  have belt: "\<forall>c'\<in>set categories. has_keyword_of c' ''Leather Belt'' \<longleftrightarrow> c' = ''accessories''"
    by (simp add: categories_eq has_keyword_of_def CATEGORY_KEYWORDS_def lower_def lower_char_def)
  have chino: "\<forall>c'\<in>set categories. has_keyword_of c' ''Chino Short Belt''
                 \<longleftrightarrow> c' = categories ! 1 \<or> c' = categories ! 4"
    by (simp add: categories_eq has_keyword_of_def CATEGORY_KEYWORDS_def lower_def lower_char_def)
  have sun: "\<forall>c\<in>set categories. \<not> has_keyword_of c ''Sunglasses''"
    by (simp add: categories_eq has_keyword_of_def CATEGORY_KEYWORDS_def lower_def lower_char_def)
  have acc: "''accessories'' \<in> set categories"
    by (simp add: categories_eq)
  have len: "(1::nat) < 4 \<and> 4 < length categories"
    by (simp add: categories_eq)
  note one = map_category_classifies [of "''Leather Belt''", THEN conjunct1]
  note two = map_category_classifies [of "''Chino Short Belt''", THEN conjunct2, THEN conjunct1]
  note none = map_category_classifies [of "''Sunglasses''", THEN conjunct2, THEN conjunct2,
    THEN conjunct1]
  have r1: "map_category ''Leather Belt'' = ''accessories''"
    by (rule one [THEN bspec, OF acc, THEN mp, OF belt])
  have "map_category ''Chino Short Belt'' = categories ! 1"
    by (rule two [THEN spec, THEN spec, THEN mp, OF conjI [OF conjunct1 [OF len]
          conjI [OF conjunct2 [OF len] chino]]])
  then have r2: "map_category ''Chino Short Belt'' = ''bottoms''"
    by (simp add: categories_eq)
  have r3: "map_category ''Sunglasses'' = ''tops''"
    by (rule none [THEN mp, OF sun])
  show ?thesis
    using belt chino sun r1 r2 r3 by (simp add: categories_eq)
qed

section \<open>One card\<close>

lemma truthy_add_origin: "truthy (add_origin u) = truthy u"
  by (cases u) (simp_all add: add_origin_def)

lemma add_origin_Some: "add_origin u = Some v \<Longrightarrow> \<exists>w. u = Some w"
  by (cases u) (simp_all add: add_origin_def)

lemma truthy_Some: "truthy u = (\<exists>v. u = Some v \<and> v \<noteq> [])"
  by (cases u) simp_all

lemma card_record_None: "\<not> fully_formed pc \<Longrightarrow> card_record pc = None"
  unfolding fully_formed_def card_record_def price_parses_def
  by (cases "name_tag pc"; cases "link_tag pc"; cases "image_src pc")
     (auto simp: add_origin_def split: sum.splits option.splits)

lemma card_record_Some:
  "fully_formed pc \<Longrightarrow>
     \<exists>name product_url image_url price.
        name_tag pc = Some name \<and> name \<noteq> []
      \<and> add_origin (link_tag pc) = Some product_url \<and> product_url \<noteq> []
      \<and> add_origin (image_src pc) = Some image_url \<and> image_url \<noteq> []
      \<and> parse_price (price_tag pc) = Inr (Some price)
      \<and> card_record pc = Some (product_dict name price image_url product_url (map_category name) [])"
  unfolding fully_formed_def card_record_def price_parses_def
  by (cases "name_tag pc"; cases "link_tag pc"; cases "image_src pc")
     (auto simp: add_origin_def split: sum.splits option.splits)

lemma map_of_product_dict_url:
  "map_of (product_dict name price image_url product_url category color) ''productUrl''
     = Some (Str product_url)"
  by (simp add: product_dict_def)

lemma save_product_dict:
  "save_product_to_firestore env (product_dict name price image_url product_url category color) s
     = set_merge env (md5_hexdigest env product_url)
         (product_dict name price image_url product_url category color) s"
  by (simp add: save_product_to_firestore_def map_of_product_dict_url)

lemma scrape_card_eq:
  "scrape_card env pc s =
     (case parse_price (price_tag pc) of
        Inl e \<Rightarrow> (Inl e, s)
      | Inr p \<Rightarrow>
          (case card_record pc of
             None \<Rightarrow> (Inr 0, s)
           | Some d \<Rightarrow>
               (case save_product_to_firestore env d s of
                  (Inl e, s1) \<Rightarrow> (Inl e, s1)
                | (Inr u, s1) \<Rightarrow> (Inr 1, s1))))"
proof (cases "parse_price (price_tag pc)")
  case (Inl e)
  then show ?thesis by (simp add: scrape_card_def)
next
  case (Inr p)
  show ?thesis
  proof (cases "fully_formed pc")
    case True
    from card_record_Some [OF True] obtain name product_url image_url price where
      h: "name_tag pc = Some name" "name \<noteq> []"
         "add_origin (link_tag pc) = Some product_url" "product_url \<noteq> []"
         "add_origin (image_src pc) = Some image_url" "image_url \<noteq> []"
         "parse_price (price_tag pc) = Inr (Some price)"
         "card_record pc = Some (product_dict name price image_url product_url (map_category name) [])"
      by blast
    then show ?thesis
      by (simp add: scrape_card_def image_src_def [symmetric])
  next
    case False
    have "\<not> (truthy (name_tag pc) \<and> truthy (add_origin (link_tag pc))
             \<and> truthy (add_origin (image_src pc)) \<and> p \<noteq> None)"
      using False Inr
      by (cases p) (auto simp: fully_formed_def price_parses_def truthy_add_origin)
    then show ?thesis
      using Inr card_record_None [OF False]
      by (auto simp: scrape_card_def image_src_def [symmetric] Let_def)
  qed
qed

lemma set_merge_accepted:
  "store_accepts env (clock s) \<Longrightarrow>
     set_merge env doc_id d s =
       (Inr (),
        s\<lparr>clock := clock s + 1,
          db := (db s)(doc_id \<mapsto> stored_fields s doc_id ++ map_of (resolve_sentinels (clock s) d)),
          trace := trace s @ [Set_merge doc_id d]\<rparr>)"
  by (simp add: set_merge_def emit_def Let_def)

lemma set_merge_rejected:
  "\<not> store_accepts env (clock s) \<Longrightarrow>
     set_merge env doc_id d s = (Inl GoogleAPICallError, s\<lparr>clock := clock s + 1\<rparr>)"
  by (simp add: set_merge_def Let_def)

lemma scrape_card_raises:
  "parse_price (price_tag pc) = Inl e \<Longrightarrow> scrape_card env pc s = (Inl e, s)"
  by (simp add: scrape_card_eq)

lemma scrape_card_dropped:
  "\<not> fully_formed pc \<Longrightarrow> \<not> price_raises pc \<Longrightarrow> scrape_card env pc s = (Inr 0, s)"
  by (auto simp: scrape_card_eq card_record_None price_raises_def split: sum.splits)

lemma fully_formed_not_raises: "fully_formed pc \<Longrightarrow> \<not> price_raises pc"
  by (auto simp: fully_formed_def price_parses_def price_raises_def split: sum.splits)

lemma scrape_card_accepted:
  assumes "fully_formed pc" and "store_accepts env (clock s)"
  shows "\<exists>d u. card_record pc = Some d \<and> add_origin (link_tag pc) = Some u
           \<and> scrape_card env pc s =
               (Inr 1,
                s\<lparr>clock := clock s + 1,
                  db := (db s)(md5_hexdigest env u \<mapsto>
                          stored_fields s (md5_hexdigest env u)
                            ++ map_of (resolve_sentinels (clock s) d)),
                  trace := trace s @ [Set_merge (md5_hexdigest env u) d]\<rparr>)"
proof -
  from card_record_Some [OF assms(1)] obtain name product_url image_url price where
    h: "add_origin (link_tag pc) = Some product_url"
       "parse_price (price_tag pc) = Inr (Some price)"
       "card_record pc =
          Some (product_dict name price image_url product_url (map_category name) [])"
    by blast
  have "scrape_card env pc s =
          (Inr 1,
           s\<lparr>clock := clock s + 1,
             db := (db s)(md5_hexdigest env product_url \<mapsto>
                     stored_fields s (md5_hexdigest env product_url)
                       ++ map_of (resolve_sentinels (clock s)
                            (product_dict name price image_url product_url (map_category name) []))),
             trace := trace s @ [Set_merge (md5_hexdigest env product_url)
                       (product_dict name price image_url product_url (map_category name) [])]\<rparr>)"
    using h assms(2)
    by (simp add: scrape_card_eq save_product_dict set_merge_accepted)
  with h show ?thesis by blast
qed

lemma scrape_card_rejected:
  assumes "fully_formed pc" and "\<not> store_accepts env (clock s)"
  shows "scrape_card env pc s = (Inl GoogleAPICallError, s\<lparr>clock := clock s + 1\<rparr>)"
proof -
  from card_record_Some [OF assms(1)] obtain name product_url image_url price where
    h: "parse_price (price_tag pc) = Inr (Some price)"
       "card_record pc =
          Some (product_dict name price image_url product_url (map_category name) [])"
    by blast
  then show ?thesis
    using assms(2) by (simp add: scrape_card_eq save_product_dict set_merge_rejected)
qed

lemma writes_append: "writes (a @ b) = writes a @ writes b"
  by (induction a rule: writes.induct) simp_all

lemma gets_append: "gets (a @ b) = gets a @ gets b"
  by (induction a rule: gets.induct) simp_all

lemma errors_logged_append: "errors_logged (a @ b) = errors_logged a @ errors_logged b"
  by (induction a rule: errors_logged.induct) simp_all

section \<open>Which cards are persisted\<close>

text \<open>
  C1, as the code has it. A card is persisted, and counted in the yield of its page,
  exactly when its name, its product link and its image source are not empty, its
  price text is not empty and is accepted by \<^verbatim>\<open>float\<close> once \<^verbatim>\<open>NZD\<close>, \<^verbatim>\<open>$\<close>, commas and
  the white space around it are removed (a number of either sign, an infinity or a
  NaN), and the store accepts the write. Any other card adds nothing to the yield,
  writes nothing and leaves the collection as it was.
\<close>

theorem scrape_card_persists_iff:
  "(fully_formed pc \<and> store_accepts env (clock s) \<longrightarrow>
      fst (scrape_card env pc s) = Inr 1
      \<and> (\<exists>d u. card_record pc = Some d \<and> add_origin (link_tag pc) = Some u
            \<and> writes (trace (snd (scrape_card env pc s)))
                = writes (trace s) @ [(md5_hexdigest env u, d)]
            \<and> db (snd (scrape_card env pc s)) (md5_hexdigest env u)
                = Some (stored_fields s (md5_hexdigest env u)
                          ++ map_of (resolve_sentinels (clock s) d))))
   \<and> (\<not> (fully_formed pc \<and> store_accepts env (clock s)) \<longrightarrow>
        (fst (scrape_card env pc s) = Inr 0 \<or> (\<exists>e. fst (scrape_card env pc s) = Inl e))
        \<and> writes (trace (snd (scrape_card env pc s))) = writes (trace s)
        \<and> db (snd (scrape_card env pc s)) = db s)"
proof (intro conjI impI)
  assume a: "fully_formed pc \<and> store_accepts env (clock s)"
  from scrape_card_accepted [of pc env s] a obtain d u where
    h: "card_record pc = Some d" "add_origin (link_tag pc) = Some u"
       "scrape_card env pc s =
               (Inr 1,
                s\<lparr>clock := clock s + 1,
                  db := (db s)(md5_hexdigest env u \<mapsto>
                          stored_fields s (md5_hexdigest env u)
                            ++ map_of (resolve_sentinels (clock s) d)),
                  trace := trace s @ [Set_merge (md5_hexdigest env u) d]\<rparr>)"
    by blast
  show "fst (scrape_card env pc s) = Inr 1" using h(3) by simp
  show "\<exists>d u. card_record pc = Some d \<and> add_origin (link_tag pc) = Some u
            \<and> writes (trace (snd (scrape_card env pc s)))
                = writes (trace s) @ [(md5_hexdigest env u, d)]
            \<and> db (snd (scrape_card env pc s)) (md5_hexdigest env u)
                = Some (stored_fields s (md5_hexdigest env u)
                          ++ map_of (resolve_sentinels (clock s) d))"
    using h by (intro exI [of _ d] exI [of _ u]) (simp add: writes_append)
next
  assume a: "\<not> (fully_formed pc \<and> store_accepts env (clock s))"
  consider (rej) "fully_formed pc" "\<not> store_accepts env (clock s)"
    | (raises) "\<not> fully_formed pc" "price_raises pc"
    | (drop) "\<not> fully_formed pc" "\<not> price_raises pc"
    using a by blast
  then have r: "(\<exists>e. scrape_card env pc s = (Inl e, s\<lparr>clock := clock s + 1\<rparr>))
              \<or> (\<exists>e. scrape_card env pc s = (Inl e, s))
              \<or> scrape_card env pc s = (Inr 0, s)"
  proof cases
    case rej
    then show ?thesis using scrape_card_rejected by blast
  next
    case raises
    then obtain e where "parse_price (price_tag pc) = Inl e"
      by (auto simp: price_raises_def split: sum.splits)
    then show ?thesis using scrape_card_raises by blast
  next
    case drop
    then show ?thesis using scrape_card_dropped by blast
  qed
  from r show "fst (scrape_card env pc s) = Inr 0 \<or> (\<exists>e. fst (scrape_card env pc s) = Inl e)"
    by auto
  from r show "writes (trace (snd (scrape_card env pc s))) = writes (trace s)"
    by auto
  from r show "db (snd (scrape_card env pc s)) = db s"
    by auto
qed

text \<open>Evaluating the example cards.\<close>

lemmas float_eval = py_float_def strip_def isspace_def parse_sign_def lower_def lower_char_def
  parse_number_def isdigit_def parse_exponent_def digits_val_def digit_val_def pow10_def

lemmas card_eval = fully_formed_def price_parses_def price_raises_def parse_price_def
  clean_price_def image_src_def card_record_def add_origin_def product_dict_def

lemma map_category_linen_shirt: "map_category ''Linen Shirt'' = ''tops''"
  by (simp add: map_category_def CATEGORY_KEYWORDS_def lower_def lower_char_def)

lemma shirt_price: "parse_price (Some ''NZD $1,129.00'') = Inr (Some (Float 1129))"
  by (simp add: parse_price_def clean_price_def float_eval)

lemma refund_price: "parse_price (Some ''-$5.00'') = Inr (Some (Float (- 5)))"
  by (simp add: parse_price_def clean_price_def float_eval)

lemma bad_price_raises: "parse_price (Some ''From $50'') = Inl (ValueError ''From 50'')"
  by (simp add: parse_price_def clean_price_def float_eval)

lemma fully_formed_shirt: "fully_formed shirt"
  by (simp add: shirt_def fully_formed_def price_parses_def image_src_def shirt_price)

lemma fully_formed_refund: "fully_formed refund"
  by (simp add: refund_def shirt_def fully_formed_def price_parses_def image_src_def refund_price)

lemma card_record_shirt:
  "card_record shirt =
     Some (product_dict ''Linen Shirt'' (Float 1129)
             ''https://www.countryroad.co.nz/img/60291.jpg''
             ''https://www.countryroad.co.nz/linen-shirt-60291.html'' ''tops'' [])"
  by (simp add: shirt_def card_record_def image_src_def add_origin_def shirt_price
        map_category_linen_shirt)

lemma card_record_refund:
  "card_record refund =
     Some (product_dict ''Linen Shirt'' (Float (- 5))
             ''https://www.countryroad.co.nz/img/60291.jpg''
             ''https://www.countryroad.co.nz/linen-shirt-60291.html'' ''tops'' [])"
  by (simp add: refund_def shirt_def card_record_def image_src_def add_origin_def refund_price
        map_category_linen_shirt)

lemma link_shirt:
  "add_origin (link_tag shirt) = Some ''https://www.countryroad.co.nz/linen-shirt-60291.html''"
  by (simp add: shirt_def add_origin_def)

lemma link_refund:
  "add_origin (link_tag refund) = Some ''https://www.countryroad.co.nz/linen-shirt-60291.html''"
  by (simp add: refund_def shirt_def add_origin_def)

lemma not_fully_formed_no_price: "\<not> fully_formed no_price"
  by (simp add: no_price_def fully_formed_def price_parses_def parse_price_def)

lemma offline_accepts: "store_accepts offline t"
  by (simp add: offline_def site_def)

lemma md5_offline: "md5_hexdigest offline u = ''md5:'' @ u"
  by (simp add: offline_def site_def)

lemma scrape_card_accepted_writes:
  assumes "card_record pc = Some d" and "add_origin (link_tag pc) = Some u"
    and "store_accepts env (clock s)"
  shows "fst (scrape_card env pc s) = Inr 1
         \<and> writes (trace (snd (scrape_card env pc s)))
             = writes (trace s) @ [(md5_hexdigest env u, d)]"
proof -
  have "fully_formed pc" using assms(1) card_record_None by fastforce
  from scrape_card_accepted [OF this assms(3)] assms(1,2) show ?thesis
    by (auto simp: writes_append)
qed

text \<open>
  The claim as the spec states it asks for a price that is not negative. The card
  \<open>refund\<close> has the price text \<^verbatim>\<open>-$5.00\<close>: it is persisted with the price \<open>-5\<close> and counted.
\<close>

theorem negative_price_is_persisted:
  "\<not> spec_fully_formed refund
   \<and> price_tag refund = Some ''-$5.00''
   \<and> fst (scrape_card offline refund s0) = Inr 1
   \<and> writes (trace (snd (scrape_card offline refund s0))) =
       [(''md5:https://www.countryroad.co.nz/linen-shirt-60291.html'',
         product_dict ''Linen Shirt'' (Float (- 5))
           ''https://www.countryroad.co.nz/img/60291.jpg''
           ''https://www.countryroad.co.nz/linen-shirt-60291.html'' ''tops'' [])]"
proof -
  have "\<not> spec_fully_formed refund"
    by (simp add: refund_def shirt_def spec_fully_formed_def image_src_def refund_price)
  moreover have "price_tag refund = Some ''-$5.00''"
    by (simp add: refund_def)
  moreover have "trace s0 = []" by (simp add: s0_def)
  ultimately show ?thesis
    using scrape_card_accepted_writes [OF card_record_refund link_refund offline_accepts, of s0]
    by (simp add: md5_offline)
qed

text \<open>
  The theorem at two cards: \<open>shirt\<close> is persisted, and the same card without a price
  tag is dropped.
\<close>

theorem scrape_card_persists_iff_witness:
  "fully_formed shirt \<and> store_accepts offline (clock s0)
   \<and> fst (scrape_card offline shirt s0) = Inr 1
   \<and> writes (trace (snd (scrape_card offline shirt s0))) =
       [(''md5:https://www.countryroad.co.nz/linen-shirt-60291.html'',
         product_dict ''Linen Shirt'' (Float 1129)
           ''https://www.countryroad.co.nz/img/60291.jpg''
           ''https://www.countryroad.co.nz/linen-shirt-60291.html'' ''tops'' [])]
   \<and> \<not> fully_formed no_price
   \<and> fst (scrape_card offline no_price s0) = Inr 0
   \<and> writes (trace (snd (scrape_card offline no_price s0))) = []
   \<and> db (snd (scrape_card offline no_price s0)) = db s0"
proof -
  have t0: "trace s0 = []" by (simp add: s0_def)
  note yes = scrape_card_persists_iff [of shirt offline s0, THEN conjunct1, THEN mp,
    OF conjI [OF fully_formed_shirt offline_accepts]]
  have no_raise: "parse_price (price_tag no_price) = Inr None"
    by (simp add: no_price_def parse_price_def)
  have n: "\<not> (fully_formed no_price \<and> store_accepts offline (clock s0))"
    using not_fully_formed_no_price by simp
  note no = scrape_card_persists_iff [of no_price offline s0, THEN conjunct2, THEN mp, OF n]
  have "\<not> price_raises no_price"
    by (simp add: price_raises_def no_raise)
  then have "fst (scrape_card offline no_price s0) = Inr 0"
    by (simp add: scrape_card_dropped [OF not_fully_formed_no_price])
  moreover have "writes (trace (snd (scrape_card offline shirt s0))) =
       [(''md5:https://www.countryroad.co.nz/linen-shirt-60291.html'',
         product_dict ''Linen Shirt'' (Float 1129)
           ''https://www.countryroad.co.nz/img/60291.jpg''
           ''https://www.countryroad.co.nz/linen-shirt-60291.html'' ''tops'' [])]"
    using yes by (simp add: card_record_shirt link_shirt md5_offline t0)
  ultimately show ?thesis
    using yes no fully_formed_shirt not_fully_formed_no_price offline_accepts t0
    by simp
qed

section \<open>The traces of the loops\<close>

lemma card_event_gets: "list_all card_event tr \<Longrightarrow> gets tr = []"
  by (induction tr rule: gets.induct) simp_all

lemma card_event_not_zero_yield: "list_all card_event tr \<Longrightarrow> e \<in> set tr \<Longrightarrow> \<not> zero_yield e"
  by (induction tr) (auto elim: card_event.elims)

lemma scrape_card_accepted_eq:
  assumes "fully_formed pc" and "store_accepts env (clock s)"
  shows "fst (scrape_card env pc s) = Inr 1"
    and "trace (snd (scrape_card env pc s))
           = trace s @ [Set_merge (fst (card_write env pc)) (snd (card_write env pc))]"
    and "clock (snd (scrape_card env pc s)) = clock s + 1"
  using scrape_card_accepted [OF assms] by (auto simp: card_write_def)

lemma scrape_card_summary:
  "\<exists>tr. trace (snd (scrape_card env pc s)) = trace s @ tr
        \<and> (tr = [] \<or> fully_formed pc
              \<and> tr = [Set_merge (fst (card_write env pc)) (snd (card_write env pc))])"
proof -
  consider (acc) "fully_formed pc" "store_accepts env (clock s)"
    | (rej) "fully_formed pc" "\<not> store_accepts env (clock s)"
    | (raises) "\<not> fully_formed pc" "price_raises pc"
    | (drop) "\<not> fully_formed pc" "\<not> price_raises pc"
    by blast
  then show ?thesis
  proof cases
    case acc
    then show ?thesis using scrape_card_accepted_eq(2) by blast
  next
    case rej
    then show ?thesis by (simp add: scrape_card_rejected)
  next
    case raises
    then obtain e where "parse_price (price_tag pc) = Inl e"
      by (auto simp: price_raises_def split: sum.splits)
    then show ?thesis by (simp add: scrape_card_raises)
  next
    case drop
    then show ?thesis by (simp add: scrape_card_dropped)
  qed
qed

lemma scrape_cards_summary:
  "\<exists>tr. trace (snd (scrape_cards env cards n s)) = trace s @ tr
        \<and> list_all card_event tr
        \<and> (\<forall>w\<in>set (writes tr). \<exists>pc\<in>set cards. fully_formed pc \<and> w = card_write env pc)"
proof (induction cards arbitrary: n s)
  case Nil
  then show ?case by simp
next
  case (Cons pc cards)
  obtain r s1 where r: "scrape_card env pc s = (r, s1)" by (cases "scrape_card env pc s")
  from scrape_card_summary [of env pc s] r obtain t1 where
    t1: "trace s1 = trace s @ t1"
        "t1 = [] \<or> fully_formed pc
              \<and> t1 = [Set_merge (fst (card_write env pc)) (snd (card_write env pc))]"
    by auto
  have e1: "list_all card_event t1" using t1(2) by auto
  have w1: "\<forall>w\<in>set (writes t1). fully_formed pc \<and> w = card_write env pc"
    using t1(2) by auto
  show ?case
  proof (cases r)
    case (Inr k)
    from Cons.IH [of "n + k" s1] obtain t2 where
      t2: "trace (snd (scrape_cards env cards (n + k) s1)) = trace s1 @ t2"
          "list_all card_event t2"
          "\<forall>w\<in>set (writes t2). \<exists>pc\<in>set cards. fully_formed pc \<and> w = card_write env pc"
      by blast
    have "trace (snd (scrape_cards env (pc # cards) n s)) = trace s @ (t1 @ t2)"
      using r Inr t1(1) t2(1) by simp
    moreover have "list_all card_event (t1 @ t2)" using e1 t2(2) by simp
    moreover have "\<forall>w\<in>set (writes (t1 @ t2)).
                     \<exists>pc'\<in>set (pc # cards). fully_formed pc' \<and> w = card_write env pc'"
      using w1 t2(3) by (auto simp: writes_append)
    ultimately show ?thesis by blast
  next
    case (Inl e)
    from Cons.IH [of n "emit (Print_error_parsing e) s1"] obtain t2 where
      t2: "trace (snd (scrape_cards env cards n (emit (Print_error_parsing e) s1)))
             = trace (emit (Print_error_parsing e) s1) @ t2"
          "list_all card_event t2"
          "\<forall>w\<in>set (writes t2). \<exists>pc\<in>set cards. fully_formed pc \<and> w = card_write env pc"
      by blast
    have "trace (snd (scrape_cards env (pc # cards) n s))
            = trace s @ (t1 @ Print_error_parsing e # t2)"
      using r Inl t1(1) t2(1) by (simp add: emit_def)
    moreover have "list_all card_event (t1 @ Print_error_parsing e # t2)"
      using e1 t2(2) by simp
    moreover have "\<forall>w\<in>set (writes (t1 @ Print_error_parsing e # t2)).
                     \<exists>pc'\<in>set (pc # cards). fully_formed pc' \<and> w = card_write env pc'"
      using w1 t2(3) by (auto simp: writes_append)
    ultimately show ?thesis by blast
  qed
qed

lemma gets_nil_no_get: "gets tr = [] \<Longrightarrow> no_get_after_zero_yield tr"
proof (induction tr)
  case Nil
  then show ?case by simp
next
  case (Cons e tr)
  then show ?case by (cases e) simp_all
qed

lemma no_zero_yield_append:
  "\<forall>e\<in>set a. \<not> zero_yield e \<Longrightarrow> no_get_after_zero_yield (a @ b) = no_get_after_zero_yield b"
  by (induction a) simp_all

lemma gets_skip: "gets [e] = [] \<Longrightarrow> gets (e # es) = gets es"
  by (cases e) simp_all

lemma writes_skip: "writes [e] = [] \<Longrightarrow> writes (e # es) = writes es"
  by (cases e) simp_all

lemma scrape_cards_none_formed:
  "\<forall>pc\<in>set cards. \<not> fully_formed pc \<Longrightarrow> fst (scrape_cards env cards n s) = n"
proof (induction cards arbitrary: n s)
  case Nil
  then show ?case by simp
next
  case (Cons pc cards)
  then have nf: "\<not> fully_formed pc" by simp
  show ?case
  proof (cases "price_raises pc")
    case True
    then obtain e where "parse_price (price_tag pc) = Inl e"
      by (auto simp: price_raises_def split: sum.splits)
    then show ?thesis using Cons by (simp add: scrape_card_raises)
  next
    case False
    then show ?thesis using Cons nf by (simp add: scrape_card_dropped)
  qed
qed

lemma scrape_page_failed:
  "requests_get env (page_url_of url n) = None \<Longrightarrow>
     scrape_page env url n s =
       (0, s\<lparr>trace := trace s @ [Print_scraping (page_url_of url n), Get (page_url_of url n),
                                  Print_failed_to_fetch (page_url_of url n)]\<rparr>)"
  by (simp add: scrape_page_def emit_def Let_def)

lemma scrape_page_fetched:
  "requests_get env (page_url_of url n) = Some text \<Longrightarrow>
     scrape_page env url n s =
       (let r = scrape_cards env (find_all_product_cards env text) 0
                  (s\<lparr>trace := trace s @ [Print_scraping (page_url_of url n),
                                           Get (page_url_of url n)]\<rparr>)
        in (fst r, emit (Print_found (fst r) (page_url_of url n)) (snd r)))"
  by (simp add: scrape_page_def emit_def Let_def split: prod.splits)

lemma scrape_page_summary:
  "\<exists>tr e. trace (snd (scrape_page env url n s))
             = trace s @ Print_scraping (page_url_of url n) # Get (page_url_of url n) # tr @ [e]
         \<and> list_all card_event tr
         \<and> (\<forall>w\<in>set (writes tr). from_card env w)
         \<and> gets [e] = [] \<and> writes [e] = []
         \<and> zero_yield e = (fst (scrape_page env url n s) = 0)"
proof (cases "requests_get env (page_url_of url n)")
  case None
  show ?thesis
    unfolding scrape_page_failed [OF None]
    by (intro exI [of _ "[]"] exI [of _ "Print_failed_to_fetch (page_url_of url n)"]) simp
next
  case (Some markup)
  define s1 where "s1 = s\<lparr>trace := trace s @ [Print_scraping (page_url_of url n),
                                           Get (page_url_of url n)]\<rparr>"
  define r where "r = scrape_cards env (find_all_product_cards env markup) 0 s1"
  from scrape_cards_summary [of env "find_all_product_cards env markup" 0 s1] obtain tr where
    tr: "trace (snd r) = trace s1 @ tr" "list_all card_event tr"
        "\<forall>w\<in>set (writes tr). \<exists>pc\<in>set (find_all_product_cards env markup).
            fully_formed pc \<and> w = card_write env pc"
    unfolding r_def by blast
  have p: "scrape_page env url n s = (fst r, emit (Print_found (fst r) (page_url_of url n)) (snd r))"
    using scrape_page_fetched [OF Some, of s] by (simp add: r_def s1_def Let_def)
  have "trace (snd (scrape_page env url n s))
          = trace s @ Print_scraping (page_url_of url n) # Get (page_url_of url n)
              # tr @ [Print_found (fst r) (page_url_of url n)]"
    using tr(1) by (simp add: p emit_def s1_def)
  moreover have "\<forall>w\<in>set (writes tr). from_card env w"
    using tr(3) by (auto simp: from_card_def)
  moreover have "zero_yield (Print_found (fst r) (page_url_of url n))
                   = (fst (scrape_page env url n s) = 0)"
    by (simp add: p)
  ultimately show ?thesis using tr(2)
    by (intro exI [of _ tr] exI [of _ "Print_found (fst r) (page_url_of url n)"]) simp
qed

lemma scrape_pages_summary:
  "\<exists>m tr. m \<le> length ns \<and> (ns = [] \<or> 0 < m)
         \<and> trace (snd (scrape_pages env url ns tot s)) = trace s @ tr
         \<and> gets tr = map (page_url_of url) (take m ns)
         \<and> no_get_after_zero_yield tr
         \<and> (\<forall>w\<in>set (writes tr). from_card env w)"
proof (induction ns arbitrary: tot s)
  case Nil
  show ?case by (intro exI [of _ 0] exI [of _ "[]"]) simp
next
  case (Cons n ns)
  define u where "u = page_url_of url n"
  obtain k s1 where p: "scrape_page env url n s = (k, s1)" by (cases "scrape_page env url n s")
  from scrape_page_summary [of env url n s] p obtain tr e where
    t: "trace s1 = trace s @ Print_scraping u # Get u # tr @ [e]"
       "list_all card_event tr" "\<forall>w\<in>set (writes tr). from_card env w"
       "gets [e] = []" "writes [e] = []" "zero_yield e = (k = 0)"
    unfolding u_def by auto
  define pre where "pre = Print_scraping u # Get u # tr"
  have pre_nz: "\<forall>x\<in>set pre. \<not> zero_yield x"
    using card_event_not_zero_yield [OF t(2)] by (auto simp: pre_def)
  have pre_gets: "gets pre = [u]"
    using card_event_gets [OF t(2)] by (simp add: pre_def)
  have pre_writes: "writes pre = writes tr" by (simp add: pre_def)
  have t1: "trace s1 = trace s @ pre @ [e]" using t(1) by (simp add: pre_def)
  show ?case
  proof (cases "k = 0")
    case True
    define tt where "tt = pre @ [e, Print_no_more n url]"
    have "trace (snd (scrape_pages env url (n # ns) tot s)) = trace s @ tt"
      using p True t1 by (simp add: emit_def tt_def)
    moreover have "gets tt = map (page_url_of url) (take 1 (n # ns))"
      using pre_gets t(4) by (simp add: tt_def gets_append gets_skip u_def)
    moreover have "no_get_after_zero_yield tt"
      unfolding tt_def using pre_nz t(4) by (simp add: no_zero_yield_append gets_skip)
    moreover have "\<forall>w\<in>set (writes tt). from_card env w"
      using t(3,5) pre_writes by (simp add: tt_def writes_append writes_skip)
    ultimately show ?thesis
      by (intro exI [of _ 1] exI [of _ tt]) simp
  next
    case False
    define s2 where "s2 = emit (Sleep 2) s1"
    from Cons.IH [of "tot + k" s2] obtain m t2 where
      ih: "m \<le> length ns" "trace (snd (scrape_pages env url ns (tot + k) s2)) = trace s2 @ t2"
          "gets t2 = map (page_url_of url) (take m ns)" "no_get_after_zero_yield t2"
          "\<forall>w\<in>set (writes t2). from_card env w"
      by blast
    define tt where "tt = (pre @ [e, Sleep 2]) @ t2"
    have enz: "\<not> zero_yield e" using t(6) False by simp
    have "trace (snd (scrape_pages env url (n # ns) tot s)) = trace s @ tt"
      using p False t1 ih(2) by (simp add: emit_def tt_def s2_def)
    moreover have "gets tt = map (page_url_of url) (take (Suc m) (n # ns))"
      using pre_gets t(4) ih(3) by (simp add: tt_def gets_append gets_skip u_def)
    moreover have "no_get_after_zero_yield tt"
      unfolding tt_def using pre_nz enz ih(4) by (subst no_zero_yield_append) auto
    moreover have "\<forall>w\<in>set (writes tt). from_card env w"
      using t(3,5) pre_writes ih(5) by (auto simp: tt_def writes_append writes_skip)
    ultimately show ?thesis using ih(1)
      by (intro exI [of _ "Suc m"] exI [of _ tt]) simp
  qed
qed

lemma range_1_8: "range 1 8 = [1, 2, 3, 4, 5, 6, 7]"
  by (simp add: range_def upt_rec)

lemma take_range_1_8: "m \<le> 7 \<Longrightarrow> take m (range 1 8) = [1..<Suc m]"
  by (simp add: range_def take_upt)

lemma scrape_pages_range:
  "\<exists>m tr. 0 < m \<and> m \<le> 7
         \<and> trace (snd (scrape_pages env url (range 1 8) tot s)) = trace s @ tr
         \<and> gets tr = map (page_url_of url) [1..<Suc m]
         \<and> no_get_after_zero_yield tr
         \<and> (\<forall>w\<in>set (writes tr). from_card env w)"
proof -
  have len: "length (range 1 8) = 7" by (simp add: range_def)
  have ne: "range 1 8 \<noteq> []" by (simp add: range_def)
  from scrape_pages_summary [of "range 1 8" env url tot s] obtain m tr where
    h: "m \<le> length (range 1 8)" "range 1 8 = [] \<or> 0 < m"
       "trace (snd (scrape_pages env url (range 1 8) tot s)) = trace s @ tr"
       "gets tr = map (page_url_of url) (take m (range 1 8))"
       "no_get_after_zero_yield tr" "\<forall>w\<in>set (writes tr). from_card env w"
    by blast
  have m7: "m \<le> 7" using h(1) unfolding len .
  have m0: "0 < m" using h(2) ne by blast
  have "gets tr = map (page_url_of url) [1..<Suc m]"
    using h(4) unfolding take_range_1_8 [OF m7] .
  with m0 m7 h(3,5,6) show ?thesis by blast
qed

lemma scrape_subcategories_summary:
  "\<exists>ks tr. length ks = length urls \<and> list_all (\<lambda>k. 1 \<le> k \<and> k \<le> 7) ks
         \<and> trace (snd (scrape_subcategories env urls tot s)) = trace s @ tr
         \<and> gets tr = concat (map (\<lambda>(u, k). map (page_url_of u) [1..<Suc k]) (zip urls ks))
         \<and> (\<forall>w\<in>set (writes tr). from_card env w)"
proof (induction urls arbitrary: tot s)
  case Nil
  show ?case by (intro exI [of _ "[]"]) simp
next
  case (Cons u urls)
  define s1 where "s1 = emit (Print_subcategory u) s"
  obtain t1 s2 where p: "scrape_pages env u (range 1 8) tot s1 = (t1, s2)"
    by (cases "scrape_pages env u (range 1 8) tot s1")
  from scrape_pages_range [of env u tot s1] obtain m tr where
    m: "m \<le> 7" "0 < m" "trace (snd (scrape_pages env u (range 1 8) tot s1)) = trace s1 @ tr"
       "gets tr = map (page_url_of u) [1..<Suc m]"
       "\<forall>w\<in>set (writes tr). from_card env w"
    by blast
  have m3: "trace s2 = trace s1 @ tr" using m(3) unfolding p by simp
  from Cons.IH [of t1 s2] obtain ks tr2 where
    ih: "length ks = length urls" "list_all (\<lambda>k. 1 \<le> k \<and> k \<le> 7) ks"
        "trace (snd (scrape_subcategories env urls t1 s2)) = trace s2 @ tr2"
        "gets tr2 = concat (map (\<lambda>(u, k). map (page_url_of u) [1..<Suc k]) (zip urls ks))"
        "\<forall>w\<in>set (writes tr2). from_card env w"
    by blast
  define tt where "tt = Print_subcategory u # tr @ tr2"
  have step: "scrape_subcategories env (u # urls) tot s = scrape_subcategories env urls t1 s2"
    unfolding scrape_subcategories.simps s1_def [symmetric] p by simp
  have "trace (snd (scrape_subcategories env (u # urls) tot s)) = trace s @ tt"
    unfolding step ih(3) m3 by (simp add: s1_def emit_def tt_def)
  moreover have "gets tt = concat (map (\<lambda>(u, k). map (page_url_of u) [1..<Suc k])
                                     (zip (u # urls) (m # ks)))"
    using m(4) ih(4) by (simp add: tt_def gets_append)
  moreover have "\<forall>w\<in>set (writes tt). from_card env w"
    using m(5) ih(5) by (auto simp: tt_def writes_append)
  moreover have "list_all (\<lambda>k. 1 \<le> k \<and> k \<le> 7) (m # ks)"
    using m(1,2) ih(2) by simp
  ultimately show ?case using ih(1)
    by (intro exI [of _ "m # ks"] exI [of _ tt]) simp
qed

lemma main_summary:
  "\<exists>ks tr. length ks = length SUBCATEGORY_URLS \<and> list_all (\<lambda>k. 1 \<le> k \<and> k \<le> 7) ks
         \<and> trace (main env s) = trace s @ tr
         \<and> gets tr = concat (map (\<lambda>(u, k). map (page_url_of u) [1..<Suc k])
                                 (zip SUBCATEGORY_URLS ks))
         \<and> (\<forall>w\<in>set (writes tr). from_card env w)"
proof -
  obtain t1 s1 where p: "scrape_subcategories env SUBCATEGORY_URLS 0 s = (t1, s1)"
    by (cases "scrape_subcategories env SUBCATEGORY_URLS 0 s")
  from scrape_subcategories_summary [of SUBCATEGORY_URLS env 0 s] p obtain ks tr where
    h: "length ks = length SUBCATEGORY_URLS" "list_all (\<lambda>k. 1 \<le> k \<and> k \<le> 7) ks"
       "trace s1 = trace s @ tr"
       "gets tr = concat (map (\<lambda>(u, k). map (page_url_of u) [1..<Suc k])
                                 (zip SUBCATEGORY_URLS ks))"
       "\<forall>w\<in>set (writes tr). from_card env w"
    by auto
  have "trace (main env s) = trace s @ (tr @ [Print_finished t1])"
    using p h(3) by (simp add: main_def emit_def)
  moreover have "gets (tr @ [Print_finished t1]) = gets tr" by (simp add: gets_append)
  moreover have "writes (tr @ [Print_finished t1]) = writes tr" by (simp add: writes_append)
  ultimately show ?thesis using h(1,2,4,5)
    by (intro exI [of _ ks] exI [of _ "tr @ [Print_finished t1]"]) simp
qed

lemma scrape_cards_append:
  "scrape_cards env (xs @ ys) k s =
     (case scrape_cards env xs k s of (k1, s1) \<Rightarrow> scrape_cards env ys k1 s1)"
proof (induction xs arbitrary: k s)
  case Nil
  then show ?case by simp
next
  case (Cons pc xs)
  then show ?case by (simp split: prod.splits sum.splits)
qed

lemma scrape_card_Inl:
  assumes "scrape_card env pc s = (Inl e, s1)"
  shows "db s1 = db s" and "trace s1 = trace s"
proof -
  consider (acc) "fully_formed pc" "store_accepts env (clock s)"
    | (rej) "fully_formed pc" "\<not> store_accepts env (clock s)"
    | (raises) "\<not> fully_formed pc" "price_raises pc"
    | (drop) "\<not> fully_formed pc" "\<not> price_raises pc"
    by blast
  then have "db s1 = db s \<and> trace s1 = trace s"
  proof cases
    case acc
    then show ?thesis using scrape_card_accepted_eq(1) [of pc env s] assms by simp
  next
    case rej
    then show ?thesis using scrape_card_rejected [of pc env s] assms by auto
  next
    case raises
    then obtain e' where "parse_price (price_tag pc) = Inl e'"
      by (auto simp: price_raises_def split: sum.splits)
    then show ?thesis using scrape_card_raises [of pc e' env s] assms by simp
  next
    case drop
    then show ?thesis using scrape_card_dropped [of pc env s] assms by simp
  qed
  then show "db s1 = db s" and "trace s1 = trace s" by simp_all
qed

lemma scrape_cards_accepting:
  assumes "\<forall>t. store_accepts env t"
  shows "fst (scrape_cards env cards k s) = k + length (filter fully_formed cards)
         \<and> writes (trace (snd (scrape_cards env cards k s)))
             = writes (trace s) @ map (card_write env) (filter fully_formed cards)
         \<and> length (errors_logged (trace (snd (scrape_cards env cards k s))))
             = length (errors_logged (trace s)) + length (filter price_raises cards)
         \<and> gets (trace (snd (scrape_cards env cards k s))) = gets (trace s)"
proof (induction cards arbitrary: k s)
  case Nil
  then show ?case by simp
next
  case (Cons pc cards)
  consider (acc) "fully_formed pc"
    | (raises) "\<not> fully_formed pc" "price_raises pc"
    | (drop) "\<not> fully_formed pc" "\<not> price_raises pc"
    by blast
  then show ?case
  proof cases
    case acc
    have a: "store_accepts env (clock s)" using assms by simp
    obtain s1 where s1: "scrape_card env pc s = (Inr 1, s1)"
      using scrape_card_accepted_eq(1) [OF acc a] by (cases "scrape_card env pc s") simp
    have t1: "trace s1 = trace s @ [Set_merge (fst (card_write env pc)) (snd (card_write env pc))]"
      using scrape_card_accepted_eq(2) [OF acc a] s1 by simp
    have nr: "\<not> price_raises pc" using acc by (rule fully_formed_not_raises)
    show ?thesis
      using Cons [of "k + 1" s1] s1 t1 acc nr
      by (simp add: writes_append errors_logged_append gets_append)
  next
    case raises
    then obtain e where e: "parse_price (price_tag pc) = Inl e"
      by (auto simp: price_raises_def split: sum.splits)
    show ?thesis
      using Cons [of k "emit (Print_error_parsing e) s"] raises
      by (simp add: scrape_card_raises [OF e] emit_def writes_append errors_logged_append
            gets_append)
  next
    case drop
    show ?thesis
      using Cons [of k s] drop by (simp add: scrape_card_dropped)
  qed
qed

lemma scrape_page_accepting:
  assumes "\<forall>t. store_accepts env t"
    and "requests_get env (page_url_of url n) = Some markup"
  shows "fst (scrape_page env url n s)
           = length (filter fully_formed (find_all_product_cards env markup))"
    and "writes (trace (snd (scrape_page env url n s)))
           = writes (trace s)
               @ map (card_write env) (filter fully_formed (find_all_product_cards env markup))"
    and "length (errors_logged (trace (snd (scrape_page env url n s))))
           = length (errors_logged (trace s))
               + length (filter price_raises (find_all_product_cards env markup))"
    and "gets (trace (snd (scrape_page env url n s))) = gets (trace s) @ [page_url_of url n]"
  unfolding scrape_page_fetched [OF assms(2)]
  by (simp_all add: Let_def emit_def scrape_cards_accepting [OF assms(1)] writes_append
        errors_logged_append gets_append)

section \<open>The pages a section fetches\<close>

text \<open>
  C2. For a section, the controller requests the pages 1 to \<open>k\<close> in this order, each
  once, for some \<open>k\<close> from 1 to 7; in the trace of the section no request follows the
  report of a page that scraped nothing (a failed fetch, or a count of zero). A fetch
  that fails yields zero, and so does a page without a fully formed card. For the
  whole run, the requests are those of the configured sections, one section after
  the other, none beyond page 7.
\<close>

theorem pages_in_order_until_zero_yield:
  "(\<exists>k tr. 1 \<le> k \<and> k \<le> 7
        \<and> trace (snd (scrape_pages env url (range 1 8) tot s)) = trace s @ tr
        \<and> gets tr = map (page_url_of url) [1..<Suc k]
        \<and> no_get_after_zero_yield tr)
   \<and> (requests_get env (page_url_of url n) = None \<longrightarrow> fst (scrape_page env url n s) = 0)
   \<and> (\<forall>markup. requests_get env (page_url_of url n) = Some markup
          \<and> (\<forall>pc\<in>set (find_all_product_cards env markup). \<not> fully_formed pc)
        \<longrightarrow> fst (scrape_page env url n s) = 0)
   \<and> (\<exists>ks tr. length ks = length SUBCATEGORY_URLS \<and> list_all (\<lambda>k. 1 \<le> k \<and> k \<le> 7) ks
          \<and> trace (main env s) = trace s @ tr
          \<and> gets tr = concat (map (\<lambda>(u, k). map (page_url_of u) [1..<Suc k])
                                  (zip SUBCATEGORY_URLS ks)))"
proof (intro conjI)
  from scrape_pages_range [of env url tot s] obtain m tr where
    m: "m \<le> 7" "0 < m" "trace (snd (scrape_pages env url (range 1 8) tot s)) = trace s @ tr"
       "gets tr = map (page_url_of url) [1..<Suc m]"
       "no_get_after_zero_yield tr"
    by blast
  then show "\<exists>k tr. 1 \<le> k \<and> k \<le> 7
        \<and> trace (snd (scrape_pages env url (range 1 8) tot s)) = trace s @ tr
        \<and> gets tr = map (page_url_of url) [1..<Suc k]
        \<and> no_get_after_zero_yield tr"
    by (intro exI [of _ m] exI [of _ tr]) simp
next
  show "requests_get env (page_url_of url n) = None \<longrightarrow> fst (scrape_page env url n s) = 0"
    by (simp add: scrape_page_failed)
next
  show "\<forall>markup. requests_get env (page_url_of url n) = Some markup
          \<and> (\<forall>pc\<in>set (find_all_product_cards env markup). \<not> fully_formed pc)
        \<longrightarrow> fst (scrape_page env url n s) = 0"
    by (auto simp: scrape_page_fetched scrape_cards_none_formed Let_def)
next
  from main_summary [of env s]
  show "\<exists>ks tr. length ks = length SUBCATEGORY_URLS \<and> list_all (\<lambda>k. 1 \<le> k \<and> k \<le> 7) ks
          \<and> trace (main env s) = trace s @ tr
          \<and> gets tr = concat (map (\<lambda>(u, k). map (page_url_of u) [1..<Suc k])
                                  (zip SUBCATEGORY_URLS ks))"
    by blast
qed

text \<open>Evaluating the example section.\<close>

lemma two_pages_1: "requests_get two_pages (page_url_of chinos 1) = Some ''<page 1>''"
  by (simp add: two_pages_def site_def page_url_of_def)

lemma two_pages_2: "requests_get two_pages (page_url_of chinos 2) = Some ''<page 2>''"
  by (simp add: two_pages_def site_def page_url_of_def chinos_def)

lemma two_pages_3: "requests_get two_pages (page_url_of chinos 3) = None"
  by (simp add: two_pages_def site_def page_url_of_def chinos_def)

lemma two_pages_cards_1: "find_all_product_cards two_pages ''<page 1>'' = [shirt]"
  by (simp add: two_pages_def site_def)

lemma two_pages_cards_2: "find_all_product_cards two_pages ''<page 2>'' = [no_price]"
  by (simp add: two_pages_def site_def)

lemma two_pages_accepts: "store_accepts two_pages t"
  by (simp add: two_pages_def site_def)

lemma no_price_not_raises: "\<not> price_raises no_price"
  by (simp add: price_raises_def no_price_def parse_price_def)

lemma two_pages_page_1:
  "fst (scrape_page two_pages chinos 1 s) = 1"
  "gets (trace (snd (scrape_page two_pages chinos 1 s))) = gets (trace s) @ [chinos]"
  unfolding scrape_page_fetched [OF two_pages_1] two_pages_cards_1
  using scrape_card_accepted_eq [OF fully_formed_shirt two_pages_accepts]
  by (simp_all add: Let_def split_beta emit_def gets_append page_url_of_def)

lemma two_pages_page_2:
  "fst (scrape_page two_pages chinos 2 s) = 0"
  "gets (trace (snd (scrape_page two_pages chinos 2 s)))
     = gets (trace s) @ [chinos @ ''?src=i&page=2'']"
  unfolding scrape_page_fetched [OF two_pages_2] two_pages_cards_2
  by (simp_all add: Let_def split_beta emit_def gets_append page_url_of_def
        scrape_card_dropped [OF not_fully_formed_no_price no_price_not_raises])

lemma two_pages_gets:
  "gets (trace (snd (scrape_pages two_pages chinos (range 1 8) 0 s0)))
     = [chinos, chinos @ ''?src=i&page=2'']"
  unfolding range_1_8 scrape_pages.simps split_beta Let_def two_pages_page_1 two_pages_page_2
  by (simp add: two_pages_page_1 [unfolded One_nat_def] two_pages_page_2 emit_def gets_append
        s0_def)

text \<open>
  The theorem at the section \<open>chinos\<close> of \<open>two_pages\<close>: page 1 yields one record, page 2
  has no fully formed card, and the section ends after two requests; a request for
  page 3 would fail.
\<close>

theorem pages_in_order_until_zero_yield_witness:
  "(\<exists>k tr. 1 \<le> k \<and> k \<le> 7
        \<and> trace (snd (scrape_pages two_pages chinos (range 1 8) 0 s0)) = trace s0 @ tr
        \<and> gets tr = map (page_url_of chinos) [1..<Suc k]
        \<and> no_get_after_zero_yield tr)
   \<and> gets (trace (snd (scrape_pages two_pages chinos (range 1 8) 0 s0)))
        = [chinos, chinos @ ''?src=i&page=2'']
   \<and> requests_get two_pages (page_url_of chinos 3) = None
   \<and> fst (scrape_page two_pages chinos 3 s0) = 0
   \<and> requests_get two_pages (page_url_of chinos 2) = Some ''<page 2>''
   \<and> find_all_product_cards two_pages ''<page 2>'' = [no_price]
   \<and> \<not> fully_formed no_price
   \<and> fst (scrape_page two_pages chinos 2 s0) = 0"
proof -
  note at3 = pages_in_order_until_zero_yield [of two_pages chinos 0 s0 3]
  note at2 = pages_in_order_until_zero_yield [of two_pages chinos 0 s0 2]
  have none_formed: "\<forall>pc\<in>set (find_all_product_cards two_pages ''<page 2>''). \<not> fully_formed pc"
    by (simp add: two_pages_cards_2 not_fully_formed_no_price)
  have r3: "fst (scrape_page two_pages chinos 3 s0) = 0"
    by (rule at3 [THEN conjunct2, THEN conjunct1, THEN mp, OF two_pages_3])
  have r2: "fst (scrape_page two_pages chinos 2 s0) = 0"
    by (rule at2 [THEN conjunct2, THEN conjunct2, THEN conjunct1, THEN spec, THEN mp,
          OF conjI [OF two_pages_2 none_formed]])
  show ?thesis
    using at3 [THEN conjunct1] two_pages_gets two_pages_3 r3 two_pages_2 two_pages_cards_2
      not_fully_formed_no_price r2
    by (intro conjI)
qed

section \<open>A failing card and the rest of its page\<close>

text \<open>
  C5, as the code has it. On a store that accepts every write, the yield of a fetched
  page is the number of its fully formed cards, the records persisted are those of
  its fully formed cards in page order, and one failure is logged for each card whose
  price text does not parse; a card that lacks an element is dropped without a log
  line. Whenever a card raises (a price text that does not parse, a write the store
  rejects), that card writes nothing, is logged once, and the loop goes on with the
  next card; the cards before and after any card are processed in turn.
\<close>

theorem one_log_line_per_raising_card:
  "((\<forall>t. store_accepts env t) \<and> requests_get env (page_url_of url n) = Some markup \<longrightarrow>
       fst (scrape_page env url n s)
         = length (filter fully_formed (find_all_product_cards env markup))
     \<and> writes (trace (snd (scrape_page env url n s)))
         = writes (trace s)
             @ map (card_write env) (filter fully_formed (find_all_product_cards env markup))
     \<and> length (errors_logged (trace (snd (scrape_page env url n s))))
         = length (errors_logged (trace s))
             + length (filter price_raises (find_all_product_cards env markup)))
   \<and> (scrape_card env pc s = (Inl e, s1) \<longrightarrow>
         db s1 = db s \<and> trace s1 = trace s
       \<and> scrape_cards env (pc # cards) k s
           = scrape_cards env cards k (emit (Print_error_parsing e) s1))
   \<and> scrape_cards env (xs @ ys) k s =
       (case scrape_cards env xs k s of (k1, s2) \<Rightarrow> scrape_cards env ys k1 s2)"
proof (intro conjI impI)
  assume a: "(\<forall>t. store_accepts env t) \<and> requests_get env (page_url_of url n) = Some markup"
  note p = scrape_page_accepting [OF conjunct1 [OF a] conjunct2 [OF a], of s]
  show "fst (scrape_page env url n s)
         = length (filter fully_formed (find_all_product_cards env markup))"
    by (rule p(1))
  show "writes (trace (snd (scrape_page env url n s)))
         = writes (trace s)
             @ map (card_write env) (filter fully_formed (find_all_product_cards env markup))"
    by (rule p(2))
  show "length (errors_logged (trace (snd (scrape_page env url n s))))
         = length (errors_logged (trace s))
             + length (filter price_raises (find_all_product_cards env markup))"
    by (rule p(3))
next
  assume r: "scrape_card env pc s = (Inl e, s1)"
  show "db s1 = db s" by (rule scrape_card_Inl(1) [OF r])
  show "trace s1 = trace s" by (rule scrape_card_Inl(2) [OF r])
  show "scrape_cards env (pc # cards) k s
           = scrape_cards env cards k (emit (Print_error_parsing e) s1)"
    by (simp add: r)
next
  show "scrape_cards env (xs @ ys) k s =
       (case scrape_cards env xs k s of (k1, s2) \<Rightarrow> scrape_cards env ys k1 s2)"
    by (rule scrape_cards_append)
qed

text \<open>Evaluating the example pages.\<close>

lemma fully_formed_item: "fully_formed (item slug)"
  by (simp add: item_def shirt_def fully_formed_def price_parses_def image_src_def shirt_price)

lemma bad_price_price_raises: "price_raises bad_price"
  by (simp add: price_raises_def bad_price_def bad_price_raises)

lemma not_fully_formed_bad_price: "\<not> fully_formed bad_price"
  using bad_price_price_raises fully_formed_not_raises by blast

lemma five_cards_1: "requests_get five_cards (page_url_of chinos 1) = Some ''<five cards>''"
  by (simp add: five_cards_def site_def page_url_of_def)

lemma five_cards_2: "requests_get five_cards (page_url_of chinos 2) = Some ''<three cards>''"
  by (simp add: five_cards_def site_def page_url_of_def chinos_def)

lemma five_cards_cards_1:
  "find_all_product_cards five_cards ''<five cards>''
     = [item ''a'', item ''b'', no_price, item ''c'', item ''d'']"
  by (simp add: five_cards_def site_def)

lemma five_cards_cards_2:
  "find_all_product_cards five_cards ''<three cards>'' = [item ''e'', bad_price, item ''f'']"
  by (simp add: five_cards_def site_def)

lemma five_cards_accepts: "\<forall>t. store_accepts five_cards t"
  by (simp add: five_cards_def site_def)

lemma five_cards_formed:
  "filter fully_formed [item ''a'', item ''b'', no_price, item ''c'', item ''d'']
     = [item ''a'', item ''b'', item ''c'', item ''d'']"
  by (simp add: fully_formed_item not_fully_formed_no_price)

lemma five_cards_raising:
  "filter price_raises [item ''a'', item ''b'', no_price, item ''c'', item ''d''] = []"
  by (simp add: fully_formed_not_raises [OF fully_formed_item] no_price_not_raises)

lemma three_cards_formed:
  "filter fully_formed [item ''e'', bad_price, item ''f''] = [item ''e'', item ''f'']"
  by (simp add: fully_formed_item not_fully_formed_bad_price)

lemma three_cards_raising:
  "filter price_raises [item ''e'', bad_price, item ''f''] = [bad_price]"
  by (simp add: fully_formed_not_raises [OF fully_formed_item] bad_price_price_raises)

text \<open>
  The claim as the spec states it asks for one logged failure for a card that lacks
  its price. The first page of \<open>five_cards\<close> has five cards, the third without a price
  tag: four records are persisted, the yield is 4, and nothing is logged.
\<close>

theorem missing_price_is_not_logged:
  "find_all_product_cards five_cards ''<five cards>''
     = [item ''a'', item ''b'', no_price, item ''c'', item ''d'']
   \<and> price_tag no_price = None
   \<and> fst (scrape_page five_cards chinos 1 s0) = 4
   \<and> length (writes (trace (snd (scrape_page five_cards chinos 1 s0)))) = 4
   \<and> errors_logged (trace (snd (scrape_page five_cards chinos 1 s0))) = []"
proof -
  note p = scrape_page_accepting [OF five_cards_accepts five_cards_1, of s0]
  have "length (errors_logged (trace (snd (scrape_page five_cards chinos 1 s0)))) = 0"
    unfolding p(3) five_cards_cards_1 five_cards_raising by (simp add: s0_def)
  moreover have "fst (scrape_page five_cards chinos 1 s0) = 4"
    unfolding p(1) five_cards_cards_1 five_cards_formed by simp
  moreover have "length (writes (trace (snd (scrape_page five_cards chinos 1 s0)))) = 4"
    unfolding p(2) five_cards_cards_1 five_cards_formed by (simp add: s0_def)
  moreover have "price_tag no_price = None" by (simp add: no_price_def)
  ultimately show ?thesis using five_cards_cards_1 by simp
qed

text \<open>
  The theorem at both pages of \<open>five_cards\<close>: the first yields 4 and logs nothing, the
  second yields 2, persists the cards around the one whose price does not parse, and
  logs one failure; that card raises \<^verbatim>\<open>ValueError\<close>, and the loop goes on after it.
\<close>

theorem one_log_line_per_raising_card_witness:
  "(\<forall>t. store_accepts five_cards t)
   \<and> requests_get five_cards (page_url_of chinos 1) = Some ''<five cards>''
   \<and> fst (scrape_page five_cards chinos 1 s0) = 4
   \<and> length (errors_logged (trace (snd (scrape_page five_cards chinos 1 s0)))) = 0
   \<and> requests_get five_cards (page_url_of chinos 2) = Some ''<three cards>''
   \<and> fst (scrape_page five_cards chinos 2 s0) = 2
   \<and> writes (trace (snd (scrape_page five_cards chinos 2 s0)))
       = [card_write five_cards (item ''e''), card_write five_cards (item ''f'')]
   \<and> length (errors_logged (trace (snd (scrape_page five_cards chinos 2 s0)))) = 1
   \<and> scrape_card five_cards bad_price s0 = (Inl (ValueError ''From 50''), s0)
   \<and> scrape_cards five_cards [bad_price, item ''f''] 0 s0
       = scrape_cards five_cards [item ''f''] 0
           (emit (Print_error_parsing (ValueError ''From 50'')) s0)"
proof -
  have raise: "scrape_card five_cards bad_price s0 = (Inl (ValueError ''From 50''), s0)"
    by (rule scrape_card_raises) (simp add: bad_price_def bad_price_raises)
  note at1 = one_log_line_per_raising_card [of five_cards chinos 1 "''<five cards>''" s0,
    THEN conjunct1, THEN mp, OF conjI [OF five_cards_accepts five_cards_1]]
  note at2 = one_log_line_per_raising_card [of five_cards chinos 2 "''<three cards>''" s0,
    THEN conjunct1, THEN mp, OF conjI [OF five_cards_accepts five_cards_2]]
  note go_on = one_log_line_per_raising_card [of five_cards chinos 1 "''<five cards>''" s0
    bad_price "ValueError ''From 50''" s0 "[item ''f'']" 0,
    THEN conjunct2, THEN conjunct1, THEN mp, OF raise]
  have "fst (scrape_page five_cards chinos 1 s0) = 4"
    using at1 unfolding five_cards_cards_1 five_cards_formed by simp
  moreover have "length (errors_logged (trace (snd (scrape_page five_cards chinos 1 s0)))) = 0"
    using at1 unfolding five_cards_cards_1 five_cards_raising by (simp add: s0_def)
  moreover have "fst (scrape_page five_cards chinos 2 s0) = 2"
    using at2 unfolding five_cards_cards_2 three_cards_formed by simp
  moreover have "writes (trace (snd (scrape_page five_cards chinos 2 s0)))
       = [card_write five_cards (item ''e''), card_write five_cards (item ''f'')]"
    using at2 unfolding five_cards_cards_2 three_cards_formed by (simp add: s0_def)
  moreover have "length (errors_logged (trace (snd (scrape_page five_cards chinos 2 s0)))) = 1"
    using at2 unfolding five_cards_cards_2 three_cards_raising by (simp add: s0_def)
  ultimately show ?thesis
    using five_cards_accepts five_cards_1 five_cards_2 raise go_on by simp
qed

section \<open>Three full pages and an empty one\<close>











section \<open>Upsert into the catalog store\<close>

lemma map_of_resolve_sentinels:
  "map_of (resolve_sentinels t data) f =
     map_option (\<lambda>v. if v = SERVER_TIMESTAMP then Timestamp t else v) (map_of data f)"
proof (induction data)
  case Nil
  show ?case by (simp add: resolve_sentinels_def)
next
  case (Cons kv data)
  obtain k v where kv: "kv = (k, v)" by (cases kv)
  have step: "resolve_sentinels t (kv # data)
                = (k, if v = SERVER_TIMESTAMP then Timestamp t else v) # resolve_sentinels t data"
    by (simp add: resolve_sentinels_def kv)
  show ?case
  proof (cases "f = k")
    case True
    then show ?thesis unfolding step by (simp add: kv)
  next
    case False
    then show ?thesis unfolding step using Cons.IH by (simp add: kv)
  qed
qed

lemma save_accepted:
  assumes "map_of product ''productUrl'' = Some (Str url)" and "store_accepts env (clock s)"
  shows "fst (save_product_to_firestore env product s) = Inr ()"
    and "db (snd (save_product_to_firestore env product s)) =
           (db s)(md5_hexdigest env url \<mapsto>
              stored_fields s (md5_hexdigest env url)
                ++ map_of (resolve_sentinels (clock s) product))"
    and "clock (snd (save_product_to_firestore env product s)) = clock s + 1"
  using assms by (simp_all add: save_product_to_firestore_def set_merge_accepted Let_def)

lemma merged_fields:
  "(old ++ map_of (resolve_sentinels t data)) f =
     (case map_of data f of
        None \<Rightarrow> old f
      | Some v \<Rightarrow> Some (if v = SERVER_TIMESTAMP then Timestamp t else v))"
  by (cases "map_of data f") (simp_all add: map_add_def map_of_resolve_sentinels)

lemma save_merges:
  assumes "map_of product ''productUrl'' = Some (Str url)" and "store_accepts env (clock s)"
  shows "\<exists>d. db (snd (save_product_to_firestore env product s)) (md5_hexdigest env url) = Some d
           \<and> (\<forall>f v. map_of product f = Some v \<longrightarrow>
                  d f = Some (if v = SERVER_TIMESTAMP then Timestamp (clock s) else v))
           \<and> (\<forall>f. map_of product f = None \<longrightarrow> d f = stored_fields s (md5_hexdigest env url) f)"
  unfolding save_accepted(2) [OF assms]
  by (simp add: merged_fields)

lemma save_others:
  assumes "map_of product ''productUrl'' = Some (Str url)" and "store_accepts env (clock s)"
    and "doc_id \<noteq> md5_hexdigest env url"
  shows "db (snd (save_product_to_firestore env product s)) doc_id = db s doc_id"
  unfolding save_accepted(2) [OF assms(1,2)] using assms(3) by simp

lemma stored_fields_Some: "db s doc_id = Some d \<Longrightarrow> stored_fields s doc_id = d"
  by (simp add: stored_fields_def)

text \<open>
  C8. A write that the store accepts leaves under the identity of the record a
  document in which every field of the record has the value sent (the server-time
  sentinel replaced by the time of the write) and every other field has the value
  stored before; no other document changes. For two writes under one identity, the
  fields of the second record hold the values of the second write, and a field that
  only the first record had keeps the value of the first write: a colour sent in the
  second write replaces an empty one, and a field left out is not erased.
\<close>

theorem upsert_merges:
  "(map_of product ''productUrl'' = Some (Str url) \<and> store_accepts env (clock s) \<longrightarrow>
      (\<exists>d. db (snd (save_product_to_firestore env product s)) (md5_hexdigest env url) = Some d
          \<and> (\<forall>f v. map_of product f = Some v \<longrightarrow>
                 d f = Some (if v = SERVER_TIMESTAMP then Timestamp (clock s) else v))
          \<and> (\<forall>f. map_of product f = None \<longrightarrow> d f = stored_fields s (md5_hexdigest env url) f))
      \<and> (\<forall>doc_id. doc_id \<noteq> md5_hexdigest env url \<longrightarrow>
            db (snd (save_product_to_firestore env product s)) doc_id = db s doc_id))
   \<and> (map_of first ''productUrl'' = Some (Str url)
        \<and> map_of second ''productUrl'' = Some (Str url)
        \<and> store_accepts env (clock s) \<and> store_accepts env (clock s + 1) \<longrightarrow>
      (\<exists>d. db (snd (save_product_to_firestore env second
                       (snd (save_product_to_firestore env first s))))
               (md5_hexdigest env url) = Some d
          \<and> (\<forall>f v. map_of second f = Some v \<longrightarrow>
                 d f = Some (if v = SERVER_TIMESTAMP then Timestamp (clock s + 1) else v))
          \<and> (\<forall>f v. map_of second f = None \<and> map_of first f = Some v \<longrightarrow>
                 d f = Some (if v = SERVER_TIMESTAMP then Timestamp (clock s) else v))))"
proof (intro conjI impI)
  assume a: "map_of product ''productUrl'' = Some (Str url) \<and> store_accepts env (clock s)"
  show "\<exists>d. db (snd (save_product_to_firestore env product s)) (md5_hexdigest env url) = Some d
          \<and> (\<forall>f v. map_of product f = Some v \<longrightarrow>
                 d f = Some (if v = SERVER_TIMESTAMP then Timestamp (clock s) else v))
          \<and> (\<forall>f. map_of product f = None \<longrightarrow> d f = stored_fields s (md5_hexdigest env url) f)"
    by (rule save_merges [OF conjunct1 [OF a] conjunct2 [OF a]])
  show "\<forall>doc_id. doc_id \<noteq> md5_hexdigest env url \<longrightarrow>
            db (snd (save_product_to_firestore env product s)) doc_id = db s doc_id"
    using save_others [OF conjunct1 [OF a] conjunct2 [OF a]] by simp
next
  assume a: "map_of first ''productUrl'' = Some (Str url)
        \<and> map_of second ''productUrl'' = Some (Str url)
        \<and> store_accepts env (clock s) \<and> store_accepts env (clock s + 1)"
  define s1 where "s1 = snd (save_product_to_firestore env first s)"
  have u1: "map_of first ''productUrl'' = Some (Str url)"
    and u2: "map_of second ''productUrl'' = Some (Str url)"
    and a1: "store_accepts env (clock s)" and a2: "store_accepts env (clock s + 1)"
    using a by simp_all
  have c1: "clock s1 = clock s + 1"
    unfolding s1_def by (rule save_accepted(3) [OF u1 a1])
  have a2': "store_accepts env (clock s1)" using a2 c1 by simp
  from save_merges [OF u1 a1] obtain d1 where
    d1: "db s1 (md5_hexdigest env url) = Some d1"
        "\<forall>f v. map_of first f = Some v \<longrightarrow>
                 d1 f = Some (if v = SERVER_TIMESTAMP then Timestamp (clock s) else v)"
    unfolding s1_def by blast
  from save_merges [OF u2 a2'] obtain d2 where
    d2: "db (snd (save_product_to_firestore env second s1)) (md5_hexdigest env url) = Some d2"
        "\<forall>f v. map_of second f = Some v \<longrightarrow>
                 d2 f = Some (if v = SERVER_TIMESTAMP then Timestamp (clock s1) else v)"
        "\<forall>f. map_of second f = None \<longrightarrow> d2 f = stored_fields s1 (md5_hexdigest env url) f"
    by blast
  have "\<forall>f v. map_of second f = None \<and> map_of first f = Some v \<longrightarrow>
                 d2 f = Some (if v = SERVER_TIMESTAMP then Timestamp (clock s) else v)"
    using d2(3) d1(2) stored_fields_Some [OF d1(1)] by simp
  with d2(1,2) show "\<exists>d. db (snd (save_product_to_firestore env second
                       (snd (save_product_to_firestore env first s))))
               (md5_hexdigest env url) = Some d
          \<and> (\<forall>f v. map_of second f = Some v \<longrightarrow>
                 d f = Some (if v = SERVER_TIMESTAMP then Timestamp (clock s + 1) else v))
          \<and> (\<forall>f v. map_of second f = None \<and> map_of first f = Some v \<longrightarrow>
                 d f = Some (if v = SERVER_TIMESTAMP then Timestamp (clock s) else v))"
    unfolding s1_def [symmetric] c1 [symmetric] by blast
qed

lemma product_dict_scrapedAt:
  "map_of (product_dict name price image_url product_url category color) ''scrapedAt''
     = Some SERVER_TIMESTAMP"
  by (simp add: product_dict_def)

lemma product_dict_no_sentinel:
  assumes "map_of (product_dict name price image_url product_url category color) f = Some v"
    and "f \<noteq> ''scrapedAt''"
  shows "v \<noteq> SERVER_TIMESTAMP"
  using assms by (auto simp: product_dict_def split: if_splits)

text \<open>
  C7. A record as \<^verbatim>\<open>scrape_page\<close> builds it, written twice to a store that accepts both
  writes: after either write there is one document under the identity of the record,
  the second write adds no document and changes no other document, every field but
  \<^verbatim>\<open>scrapedAt\<close> is the same after the two writes and has the value of the record, and
  \<^verbatim>\<open>scrapedAt\<close> goes from the time of the first write to the later time of the second.
\<close>

theorem upsert_idempotent:
  assumes "store_accepts env (clock s)" and "store_accepts env (clock s + 1)"
  shows "let p = product_dict name price image_url product_url category color;
             s1 = snd (save_product_to_firestore env p s);
             s2 = snd (save_product_to_firestore env p s1);
             doc_id = md5_hexdigest env product_url
         in \<exists>d1 d2. db s1 doc_id = Some d1 \<and> db s2 doc_id = Some d2
              \<and> (\<forall>f. f \<noteq> ''scrapedAt'' \<longrightarrow> d2 f = d1 f)
              \<and> (\<forall>f v. f \<noteq> ''scrapedAt'' \<and> map_of p f = Some v \<longrightarrow> d1 f = Some v)
              \<and> d1 ''scrapedAt'' = Some (Timestamp (clock s))
              \<and> d2 ''scrapedAt'' = Some (Timestamp (clock s + 1))
              \<and> dom (db s2) = dom (db s1)
              \<and> (\<forall>other. other \<noteq> doc_id \<longrightarrow> db s2 other = db s1 other)"
proof -
  define p where "p = product_dict name price image_url product_url category color"
  define s1 where "s1 = snd (save_product_to_firestore env p s)"
  define s2 where "s2 = snd (save_product_to_firestore env p s1)"
  define doc_id where "doc_id = md5_hexdigest env product_url"
  define d1 where "d1 = stored_fields s doc_id ++ map_of (resolve_sentinels (clock s) p)"
  define d2 where "d2 = d1 ++ map_of (resolve_sentinels (clock s + 1) p)"
  have u: "map_of p ''productUrl'' = Some (Str product_url)"
    unfolding p_def by (rule map_of_product_dict_url)
  have c1: "clock s1 = clock s + 1"
    unfolding s1_def by (rule save_accepted(3) [OF u assms(1)])
  have a2: "store_accepts env (clock s1)" using assms(2) c1 by simp
  have db1: "db s1 = (db s)(doc_id \<mapsto> d1)"
    unfolding s1_def d1_def doc_id_def by (rule save_accepted(2) [OF u assms(1)])
  have st1: "stored_fields s1 doc_id = d1"
    by (rule stored_fields_Some) (simp add: db1)
  have db2: "db s2 = (db s1)(doc_id \<mapsto> d2)"
    unfolding s2_def d2_def st1 [symmetric] c1 [symmetric] doc_id_def
    by (rule save_accepted(2) [OF u a2])
  have same: "\<forall>f. f \<noteq> ''scrapedAt'' \<longrightarrow> d2 f = d1 f"
  proof (intro allI impI)
    fix f :: string
    assume f: "f \<noteq> ''scrapedAt''"
    show "d2 f = d1 f"
    proof (cases "map_of p f")
      case None
      then show ?thesis by (simp add: d2_def merged_fields)
    next
      case (Some v)
      then have "v \<noteq> SERVER_TIMESTAMP"
        unfolding p_def using f by (rule product_dict_no_sentinel)
      then show ?thesis using Some by (simp add: d2_def d1_def merged_fields)
    qed
  qed
  have kept: "\<forall>f v. f \<noteq> ''scrapedAt'' \<and> map_of p f = Some v \<longrightarrow> d1 f = Some v"
  proof (intro allI impI)
    fix f :: string and v
    assume h: "f \<noteq> ''scrapedAt'' \<and> map_of p f = Some v"
    then have "v \<noteq> SERVER_TIMESTAMP"
      unfolding p_def using product_dict_no_sentinel by blast
    then show "d1 f = Some v" using h by (simp add: d1_def merged_fields)
  qed
  have t: "map_of p ''scrapedAt'' = Some SERVER_TIMESTAMP"
    unfolding p_def by (rule product_dict_scrapedAt)
  have t1: "d1 ''scrapedAt'' = Some (Timestamp (clock s))"
    by (simp add: d1_def merged_fields t)
  have t2: "d2 ''scrapedAt'' = Some (Timestamp (clock s + 1))"
    by (simp add: d2_def merged_fields t)
  have dm: "dom (db s2) = dom (db s1)"
    unfolding db2 by (auto simp: db1)
  have others: "\<forall>other. other \<noteq> doc_id \<longrightarrow> db s2 other = db s1 other"
    by (simp add: db2)
  have "db s1 doc_id = Some d1" by (simp add: db1)
  moreover have "db s2 doc_id = Some d2" by (simp add: db2)
  ultimately have "\<exists>d1 d2. db s1 doc_id = Some d1 \<and> db s2 doc_id = Some d2
              \<and> (\<forall>f. f \<noteq> ''scrapedAt'' \<longrightarrow> d2 f = d1 f)
              \<and> (\<forall>f v. f \<noteq> ''scrapedAt'' \<and> map_of p f = Some v \<longrightarrow> d1 f = Some v)
              \<and> d1 ''scrapedAt'' = Some (Timestamp (clock s))
              \<and> d2 ''scrapedAt'' = Some (Timestamp (clock s + 1))
              \<and> dom (db s2) = dom (db s1)
              \<and> (\<forall>other. other \<noteq> doc_id \<longrightarrow> db s2 other = db s1 other)"
    using same kept t1 t2 dm others
    by (intro exI [of _ d1] exI [of _ d2] conjI)
  then show ?thesis
    unfolding Let_def p_def [symmetric] s1_def [symmetric] s2_def [symmetric] doc_id_def [symmetric] .
qed

text \<open>Evaluating the example records.\<close>

lemma shirt_record_url: "map_of shirt_record ''productUrl'' = Some (Str shirt_url)"
  unfolding shirt_record_def by (rule map_of_product_dict_url)

lemma navy_update_url: "map_of navy_update ''productUrl'' = Some (Str shirt_url)"
  by (simp add: navy_update_def)

lemma offline_accepts_0: "store_accepts offline (clock s0)"
  and offline_accepts_1: "store_accepts offline (clock s0 + 1)"
  by (simp_all add: offline_def site_def)

lemma shirt_record_fields:
  "map_of shirt_record ''color'' = Some (Str [])"
  "map_of shirt_record ''brand'' = Some (Str ''Country Road'')"
  "map_of shirt_record ''scrapedAt'' = Some SERVER_TIMESTAMP"
  by (simp_all add: shirt_record_def product_dict_def)

lemma navy_update_fields:
  "map_of navy_update ''color'' = Some (Str ''navy'')"
  "map_of navy_update ''brand'' = None"
  "map_of navy_update ''scrapedAt'' = None"
  by (simp_all add: navy_update_def)

text \<open>
  The theorem C8 at the record of \<open>shirt\<close>, with an empty colour, followed by a write of
  the URL and the colour \<^verbatim>\<open>navy\<close> only: the colour stored is \<^verbatim>\<open>navy\<close>, and the brand and
  the time of the first write are still there.
\<close>

theorem upsert_merges_witness:
  "map_of shirt_record ''productUrl'' = Some (Str shirt_url)
   \<and> map_of navy_update ''productUrl'' = Some (Str shirt_url)
   \<and> store_accepts offline (clock s0) \<and> store_accepts offline (clock s0 + 1)
   \<and> map_of shirt_record ''color'' = Some (Str [])
   \<and> map_of navy_update ''color'' = Some (Str ''navy'')
   \<and> map_of navy_update ''brand'' = None
   \<and> (\<exists>d. db (snd (save_product_to_firestore offline navy_update
                      (snd (save_product_to_firestore offline shirt_record s0))))
              (md5_hexdigest offline shirt_url) = Some d
          \<and> d ''color'' = Some (Str ''navy'')
          \<and> d ''brand'' = Some (Str ''Country Road'')
          \<and> d ''scrapedAt'' = Some (Timestamp 0))"
proof -
  note two = upsert_merges [of shirt_record shirt_url offline s0 shirt_record navy_update,
    THEN conjunct2, THEN mp,
    OF conjI [OF shirt_record_url conjI [OF navy_update_url
         conjI [OF offline_accepts_0 offline_accepts_1]]]]
  from two obtain d where
    d: "db (snd (save_product_to_firestore offline navy_update
                      (snd (save_product_to_firestore offline shirt_record s0))))
              (md5_hexdigest offline shirt_url) = Some d"
       "\<forall>f v. map_of navy_update f = Some v \<longrightarrow>
                 d f = Some (if v = SERVER_TIMESTAMP then Timestamp (clock s0 + 1) else v)"
       "\<forall>f v. map_of navy_update f = None \<and> map_of shirt_record f = Some v \<longrightarrow>
                 d f = Some (if v = SERVER_TIMESTAMP then Timestamp (clock s0) else v)"
    by (elim exE conjE)
  have c: "d ''color'' = Some (Str ''navy'')"
    using d(2) [THEN spec, THEN spec, THEN mp, OF navy_update_fields(1)] by simp
  have b: "d ''brand'' = Some (Str ''Country Road'')"
    using d(3) [THEN spec, THEN spec, THEN mp,
      OF conjI [OF navy_update_fields(2) shirt_record_fields(2)]] by simp
  have t: "d ''scrapedAt'' = Some (Timestamp 0)"
    using d(3) [THEN spec, THEN spec, THEN mp,
      OF conjI [OF navy_update_fields(3) shirt_record_fields(3)]] by (simp add: s0_def)
  have "\<exists>d. db (snd (save_product_to_firestore offline navy_update
                      (snd (save_product_to_firestore offline shirt_record s0))))
              (md5_hexdigest offline shirt_url) = Some d
          \<and> d ''color'' = Some (Str ''navy'')
          \<and> d ''brand'' = Some (Str ''Country Road'')
          \<and> d ''scrapedAt'' = Some (Timestamp 0)"
    using d(1) c b t by (intro exI [of _ d] conjI)
  then show ?thesis
    using shirt_record_url navy_update_url offline_accepts_0 offline_accepts_1
      shirt_record_fields(1) navy_update_fields(1,2)
    by (intro conjI)
qed

text \<open>The theorem C7 at the record of \<open>shirt\<close>, written twice to the empty store.\<close>

theorem upsert_idempotent_witness:
  "store_accepts offline (clock s0) \<and> store_accepts offline (clock s0 + 1)
   \<and> (let s1 = snd (save_product_to_firestore offline shirt_record s0);
           s2 = snd (save_product_to_firestore offline shirt_record s1);
           doc_id = md5_hexdigest offline shirt_url
       in \<exists>d1 d2. db s1 doc_id = Some d1 \<and> db s2 doc_id = Some d2
            \<and> d1 ''name'' = Some (Str ''Linen Shirt'') \<and> d2 ''name'' = Some (Str ''Linen Shirt'')
            \<and> d1 ''price'' = Some (Number (Float 1129)) \<and> d2 ''price'' = Some (Number (Float 1129))
            \<and> d1 ''scrapedAt'' = Some (Timestamp 0)
            \<and> d2 ''scrapedAt'' = Some (Timestamp 1)
            \<and> dom (db s2) = dom (db s1))"
proof -
  define s1 where "s1 = snd (save_product_to_firestore offline shirt_record s0)"
  define s2 where "s2 = snd (save_product_to_firestore offline shirt_record s1)"
  define doc_id where "doc_id = md5_hexdigest offline shirt_url"
  note idem = upsert_idempotent [OF offline_accepts_0 offline_accepts_1,
    of "''Linen Shirt''" "Float 1129" "''https://www.countryroad.co.nz/img/60291.jpg''"
       shirt_url "''tops''" "[]",
    unfolded Let_def, folded shirt_record_def, folded s1_def, folded s2_def, folded doc_id_def]
  from idem obtain d1 d2 where
    d: "db s1 doc_id = Some d1" "db s2 doc_id = Some d2"
       "\<forall>f. f \<noteq> ''scrapedAt'' \<longrightarrow> d2 f = d1 f"
       "\<forall>f v. f \<noteq> ''scrapedAt'' \<and> map_of shirt_record f = Some v \<longrightarrow> d1 f = Some v"
       "d1 ''scrapedAt'' = Some (Timestamp (clock s0))"
       "d2 ''scrapedAt'' = Some (Timestamp (clock s0 + 1))"
       "dom (db s2) = dom (db s1)"
    by (elim exE conjE)
  have n: "map_of shirt_record ''name'' = Some (Str ''Linen Shirt'')"
    and p: "map_of shirt_record ''price'' = Some (Number (Float 1129))"
    by (simp_all add: shirt_record_def product_dict_def)
  have n1: "d1 ''name'' = Some (Str ''Linen Shirt'')"
    using d(4) [THEN spec, THEN spec, THEN mp, OF conjI [OF _ n]] by simp
  have p1: "d1 ''price'' = Some (Number (Float 1129))"
    using d(4) [THEN spec, THEN spec, THEN mp, OF conjI [OF _ p]] by simp
  have n2: "d2 ''name'' = Some (Str ''Linen Shirt'')"
    using d(3) [THEN spec, of "''name''"] n1 by simp
  have p2: "d2 ''price'' = Some (Number (Float 1129))"
    using d(3) [THEN spec, of "''price''"] p1 by simp
  have t1: "d1 ''scrapedAt'' = Some (Timestamp 0)" using d(5) by (simp add: s0_def)
  have t2: "d2 ''scrapedAt'' = Some (Timestamp 1)" using d(6) by (simp add: s0_def)
  have "\<exists>d1 d2. db s1 doc_id = Some d1 \<and> db s2 doc_id = Some d2
            \<and> d1 ''name'' = Some (Str ''Linen Shirt'') \<and> d2 ''name'' = Some (Str ''Linen Shirt'')
            \<and> d1 ''price'' = Some (Number (Float 1129)) \<and> d2 ''price'' = Some (Number (Float 1129))
            \<and> d1 ''scrapedAt'' = Some (Timestamp 0)
            \<and> d2 ''scrapedAt'' = Some (Timestamp 1)
            \<and> dom (db s2) = dom (db s1)"
    using d(1,2,7) n1 n2 p1 p2 t1 t2 by (intro exI [of _ d1] exI [of _ d2] conjI)
  then show ?thesis
    unfolding Let_def s1_def [symmetric] s2_def [symmetric] doc_id_def [symmetric]
    using offline_accepts_0 offline_accepts_1 by (intro conjI)
qed

section \<open>The records a run writes\<close>

text \<open>
  A URL that \<^verbatim>\<open>scrape_page\<close> lets through is not empty, so it starts with \<^verbatim>\<open>http\<close>:
  either it did before, or the origin was put in front of it.
\<close>

lemma add_origin_http: "add_origin x = Some u \<Longrightarrow> u \<noteq> [] \<Longrightarrow> startswith u ''http''"
  by (cases x) (auto simp: add_origin_def split: if_splits)

lemma card_write_shape:
  assumes "fully_formed pc"
  shows "\<exists>name price image_url product_url.
           card_write env pc =
             (md5_hexdigest env product_url,
              product_dict name price image_url product_url (map_category name) [])
         \<and> startswith product_url ''http'' \<and> startswith image_url ''http''"
proof -
  from card_record_Some [OF assms] obtain name product_url image_url price where
    h: "add_origin (link_tag pc) = Some product_url" "product_url \<noteq> []"
       "add_origin (image_src pc) = Some image_url" "image_url \<noteq> []"
       "card_record pc =
          Some (product_dict name price image_url product_url (map_category name) [])"
    by blast
  have "card_write env pc =
          (md5_hexdigest env product_url,
           product_dict name price image_url product_url (map_category name) [])"
    by (simp add: card_write_def h)
  moreover have "startswith product_url ''http''" by (rule add_origin_http [OF h(1,2)])
  moreover have "startswith image_url ''http''" by (rule add_origin_http [OF h(3,4)])
  ultimately show ?thesis by blast
qed

lemma product_dict_fields:
  "map fst (product_dict name price image_url product_url category color)
     = [''name'', ''brand'', ''price'', ''imageUrl'', ''productUrl'', ''category'', ''color'',
        ''retailer'', ''scrapedAt'']"
  "map_of (product_dict name price image_url product_url category color) ''brand''
     = Some (Str ''Country Road'')"
  "map_of (product_dict name price image_url product_url category color) ''retailer''
     = Some (Dict [(''id'', Str ''countryroad''), (''name'', Str ''Country Road'')])"
  "map_of (product_dict name price image_url product_url category color) ''color''
     = Some (Str color)"
  "map_of (product_dict name price image_url product_url category color) ''category''
     = Some (Str category)"
  "map_of (product_dict name price image_url product_url category color) ''imageUrl''
     = Some (Str image_url)"
  by (simp_all add: product_dict_def)

lemma from_card_urls:
  assumes "from_card env w"
  shows "\<exists>u i. map_of (snd w) ''productUrl'' = Some (Str u)
              \<and> map_of (snd w) ''imageUrl'' = Some (Str i)
              \<and> startswith u ''http'' \<and> startswith i ''http''
              \<and> fst w = md5_hexdigest env u"
proof -
  from assms obtain pc where pc: "fully_formed pc" "w = card_write env pc"
    unfolding from_card_def by blast
  from card_write_shape [OF pc(1), of env] obtain name price image_url product_url where
    h: "card_write env pc =
             (md5_hexdigest env product_url,
              product_dict name price image_url product_url (map_category name) [])"
       "startswith product_url ''http''" "startswith image_url ''http''"
    by blast
  show ?thesis
    unfolding pc(2) h(1) using h(2,3)
    by (simp add: map_of_product_dict_url product_dict_fields)
qed

lemma from_card_fields:
  assumes "from_card env w"
  shows "map fst (snd w)
           = [''name'', ''brand'', ''price'', ''imageUrl'', ''productUrl'', ''category'', ''color'',
              ''retailer'', ''scrapedAt'']
         \<and> map_of (snd w) ''brand'' = Some (Str ''Country Road'')
         \<and> map_of (snd w) ''retailer''
             = Some (Dict [(''id'', Str ''countryroad''), (''name'', Str ''Country Road'')])
         \<and> map_of (snd w) ''color'' = Some (Str [])
         \<and> (\<exists>c\<in>set categories. map_of (snd w) ''category'' = Some (Str c))"
proof -
  from assms obtain pc where pc: "fully_formed pc" "w = card_write env pc"
    unfolding from_card_def by blast
  from card_write_shape [OF pc(1), of env] obtain name price image_url product_url where
    h: "card_write env pc =
             (md5_hexdigest env product_url,
              product_dict name price image_url product_url (map_category name) [])"
    by blast
  show ?thesis
    unfolding pc(2) h(1) using map_category_in_categories [of name]
    by (simp add: product_dict_fields)
qed

lemma main_writes_from_cards:
  "\<exists>tr. trace (main env s) = trace s @ tr \<and> (\<forall>w\<in>set (writes tr). from_card env w)"
  using main_summary [of env s] by blast

text \<open>The first write of a run on the site \<open>two_pages\<close> is the record of \<open>shirt\<close>.\<close>

lemma two_pages_accepts_all: "\<forall>t. store_accepts two_pages t"
  by (simp add: two_pages_def site_def)

lemma two_pages_page_writes:
  "writes (trace (snd (scrape_page two_pages chinos 1 s)))
     = writes (trace s) @ [card_write two_pages shirt]"
  "writes (trace (snd (scrape_page two_pages chinos 2 s))) = writes (trace s)"
  unfolding scrape_page_accepting(2) [OF two_pages_accepts_all two_pages_1]
    scrape_page_accepting(2) [OF two_pages_accepts_all two_pages_2]
    two_pages_cards_1 two_pages_cards_2
  by (simp_all add: fully_formed_shirt not_fully_formed_no_price)

lemma two_pages_section_writes:
  "writes (trace (snd (scrape_pages two_pages chinos (range 1 8) tot s)))
     = writes (trace s) @ [card_write two_pages shirt]"
  unfolding range_1_8 scrape_pages.simps split_beta Let_def two_pages_page_1 two_pages_page_2
  by (simp add: two_pages_page_1 [unfolded One_nat_def] two_pages_page_2
        two_pages_page_writes [unfolded One_nat_def] emit_def writes_append)

lemma two_pages_main_writes:
  "\<exists>rest. writes (trace (main two_pages s0)) = card_write two_pages shirt # rest"
proof -
  define urls where "urls = tl SUBCATEGORY_URLS"
  have u: "SUBCATEGORY_URLS = chinos # urls"
    by (simp add: urls_def SUBCATEGORY_URLS_def chinos_def)
  define s1 where "s1 = emit (Print_subcategory chinos) s0"
  obtain t1 s2 where p: "scrape_pages two_pages chinos (range 1 8) 0 s1 = (t1, s2)"
    by (cases "scrape_pages two_pages chinos (range 1 8) 0 s1")
  have step: "scrape_subcategories two_pages (chinos # urls) 0 s0
                = scrape_subcategories two_pages urls t1 s2"
    unfolding scrape_subcategories.simps s1_def [symmetric] p by simp
  have w2: "writes (trace s2) = [card_write two_pages shirt]"
    using two_pages_section_writes [of 0 s1] unfolding p
    by (simp add: s1_def emit_def s0_def writes_append)
  from scrape_subcategories_summary [of urls two_pages t1 s2] obtain tr where
    tr: "trace (snd (scrape_subcategories two_pages urls t1 s2)) = trace s2 @ tr"
    by blast
  have "writes (trace (main two_pages s0)) = card_write two_pages shirt # writes tr"
    unfolding main_def u step split_beta Let_def
    by (simp add: emit_def writes_append tr w2)
  then show ?thesis by blast
qed

section \<open>Relative URLs\<close>

text \<open>
  C9, as the code has it. A product link or image source that is not empty and does
  not start with the four characters \<^verbatim>\<open>http\<close> gets the origin
  \<^verbatim>\<open>https://www.countryroad.co.nz\<close> in front; one that starts with \<^verbatim>\<open>http\<close>, is empty or is
  missing is left as it is. In every record a run of \<^verbatim>\<open>main\<close> writes, \<^verbatim>\<open>productUrl\<close> and
  \<^verbatim>\<open>imageUrl\<close> start with \<^verbatim>\<open>http\<close>.
\<close>

theorem urls_without_http_get_the_origin:
  "(v \<noteq> [] \<and> \<not> startswith v ''http'' \<longrightarrow>
      add_origin (Some v) = Some (''https://www.countryroad.co.nz'' @ v))
   \<and> (startswith v ''http'' \<longrightarrow> add_origin (Some v) = Some v)
   \<and> add_origin (Some []) = Some []
   \<and> add_origin None = None
   \<and> (\<exists>tr. trace (main env s) = trace s @ tr
          \<and> (\<forall>w\<in>set (writes tr).
                \<exists>u i. map_of (snd w) ''productUrl'' = Some (Str u)
                     \<and> map_of (snd w) ''imageUrl'' = Some (Str i)
                     \<and> startswith u ''http'' \<and> startswith i ''http''))"
proof (intro conjI)
  show "v \<noteq> [] \<and> \<not> startswith v ''http'' \<longrightarrow>
      add_origin (Some v) = Some (''https://www.countryroad.co.nz'' @ v)"
    by (simp add: add_origin_def)
  show "startswith v ''http'' \<longrightarrow> add_origin (Some v) = Some v"
    by (simp add: add_origin_def)
  show "add_origin (Some []) = Some []" by (simp add: add_origin_def)
  show "add_origin None = None" by (simp add: add_origin_def)
  from main_writes_from_cards [of env s] obtain tr where
    tr: "trace (main env s) = trace s @ tr" "\<forall>w\<in>set (writes tr). from_card env w"
    by blast
  have "\<forall>w\<in>set (writes tr).
                \<exists>u i. map_of (snd w) ''productUrl'' = Some (Str u)
                     \<and> map_of (snd w) ''imageUrl'' = Some (Str i)
                     \<and> startswith u ''http'' \<and> startswith i ''http''"
  proof
    fix w assume "w \<in> set (writes tr)"
    then have "from_card env w" using tr(2) by simp
    from from_card_urls [OF this] obtain u i where
      "map_of (snd w) ''productUrl'' = Some (Str u)" "map_of (snd w) ''imageUrl'' = Some (Str i)"
      "startswith u ''http''" "startswith i ''http''"
      by (elim exE conjE)
    then show "\<exists>u i. map_of (snd w) ''productUrl'' = Some (Str u)
                     \<and> map_of (snd w) ''imageUrl'' = Some (Str i)
                     \<and> startswith u ''http'' \<and> startswith i ''http''"
      by (intro exI [of _ u] exI [of _ i] conjI)
  qed
  with tr(1) show "\<exists>tr. trace (main env s) = trace s @ tr
          \<and> (\<forall>w\<in>set (writes tr).
                \<exists>u i. map_of (snd w) ''productUrl'' = Some (Str u)
                     \<and> map_of (snd w) ''imageUrl'' = Some (Str i)
                     \<and> startswith u ''http'' \<and> startswith i ''http'')"
    by (intro exI [of _ tr] conjI)
qed

text \<open>Evaluating the card \<open>relative_link\<close>.\<close>

lemma card_record_relative_link:
  "card_record relative_link =
     Some (product_dict ''Linen Shirt'' (Float 1129)
             ''https://www.countryroad.co.nz/img/60291.jpg'' ''httpx/y'' ''tops'' [])"
  by (simp add: relative_link_def shirt_def card_record_def image_src_def add_origin_def
        shirt_price map_category_linen_shirt)

lemma link_relative_link: "add_origin (link_tag relative_link) = Some ''httpx/y''"
  by (simp add: relative_link_def add_origin_def)

text \<open>
  The claim as the spec states it tests for a scheme. The code tests for the prefix
  \<^verbatim>\<open>http\<close>: the image \<open>data_image\<close> starts with the scheme \<^verbatim>\<open>data:\<close> and gets the origin in
  front all the same, and the link \<^verbatim>\<open>httpx/y\<close> of the card \<open>relative_link\<close> starts with no
  scheme, is left as it is and is persisted as the \<^verbatim>\<open>productUrl\<close> of the record.
\<close>

theorem scheme_is_not_what_is_tested:
  "has_scheme data_image
   \<and> add_origin (Some data_image) = Some (''https://www.countryroad.co.nz'' @ data_image)
   \<and> add_origin (Some data_image) \<noteq> Some data_image
   \<and> \<not> has_scheme ''httpx/y''
   \<and> add_origin (Some ''httpx/y'') = Some ''httpx/y''
   \<and> link_tag relative_link = Some ''httpx/y''
   \<and> fst (scrape_card offline relative_link s0) = Inr 1
   \<and> writes (trace (snd (scrape_card offline relative_link s0))) =
       [(''md5:httpx/y'',
         product_dict ''Linen Shirt'' (Float 1129)
           ''https://www.countryroad.co.nz/img/60291.jpg'' ''httpx/y'' ''tops'' [])]"
proof -
  have "has_scheme data_image"
    by (simp add: has_scheme_def data_image_def isalpha_def scheme_char_def isdigit_def)
  moreover have "add_origin (Some data_image)
                   = Some (''https://www.countryroad.co.nz'' @ data_image)"
    by (simp add: add_origin_def data_image_def)
  moreover have "add_origin (Some data_image) \<noteq> Some data_image"
    by (simp add: add_origin_def data_image_def)
  moreover have "\<not> has_scheme ''httpx/y''"
    by (simp add: has_scheme_def isalpha_def scheme_char_def isdigit_def)
  moreover have "add_origin (Some ''httpx/y'') = Some ''httpx/y''"
    by (simp add: add_origin_def)
  moreover have "link_tag relative_link = Some ''httpx/y''"
    by (simp add: relative_link_def)
  moreover have "trace s0 = []" by (simp add: s0_def)
  ultimately show ?thesis
    using scrape_card_accepted_writes [OF card_record_relative_link link_relative_link
        offline_accepts, of s0]
    by (simp add: md5_offline)
qed

text \<open>
  The theorem at the link and a CDN image of \<open>shirt\<close>, and at the run of \<^verbatim>\<open>main\<close> on the
  site \<open>two_pages\<close>, whose first write is the record of \<open>shirt\<close>.
\<close>

theorem urls_without_http_get_the_origin_witness:
  "\<not> startswith ''/linen-shirt-60291.html'' ''http''
   \<and> add_origin (Some ''/linen-shirt-60291.html'')
       = Some ''https://www.countryroad.co.nz/linen-shirt-60291.html''
   \<and> startswith ''https://cdn.countryroad.co.nz/60291.jpg'' ''http''
   \<and> add_origin (Some ''https://cdn.countryroad.co.nz/60291.jpg'')
       = Some ''https://cdn.countryroad.co.nz/60291.jpg''
   \<and> (\<exists>rest. writes (trace (main two_pages s0)) = card_write two_pages shirt # rest)
   \<and> (\<exists>u i. map_of (snd (card_write two_pages shirt)) ''productUrl'' = Some (Str u)
          \<and> map_of (snd (card_write two_pages shirt)) ''imageUrl'' = Some (Str i)
          \<and> startswith u ''http'' \<and> startswith i ''http'')"
proof -
  have h1: "''/linen-shirt-60291.html'' \<noteq> [] \<and> \<not> startswith ''/linen-shirt-60291.html'' ''http''"
    by simp
  have h2: "startswith ''https://cdn.countryroad.co.nz/60291.jpg'' ''http''" by simp
  have r1: "add_origin (Some ''/linen-shirt-60291.html'')
              = Some (''https://www.countryroad.co.nz'' @ ''/linen-shirt-60291.html'')"
    by (rule urls_without_http_get_the_origin [of "''/linen-shirt-60291.html''" two_pages s0,
          THEN conjunct1, THEN mp, OF h1])
  have r2: "add_origin (Some ''https://cdn.countryroad.co.nz/60291.jpg'')
              = Some ''https://cdn.countryroad.co.nz/60291.jpg''"
    by (rule urls_without_http_get_the_origin [of "''https://cdn.countryroad.co.nz/60291.jpg''"
          two_pages s0, THEN conjunct2, THEN conjunct1, THEN mp, OF h2])
  from urls_without_http_get_the_origin [of "[]" two_pages s0, THEN conjunct2, THEN conjunct2,
      THEN conjunct2, THEN conjunct2]
  obtain tr where
    tr: "trace (main two_pages s0) = trace s0 @ tr"
        "\<forall>w\<in>set (writes tr).
                \<exists>u i. map_of (snd w) ''productUrl'' = Some (Str u)
                     \<and> map_of (snd w) ''imageUrl'' = Some (Str i)
                     \<and> startswith u ''http'' \<and> startswith i ''http''"
    by (elim exE conjE)
  from two_pages_main_writes obtain rest where
    rest: "writes (trace (main two_pages s0)) = card_write two_pages shirt # rest"
    by (elim exE)
  have "writes tr = card_write two_pages shirt # rest"
    using rest unfolding tr(1) by (simp add: s0_def)
  then have "card_write two_pages shirt \<in> set (writes tr)" by simp
  from tr(2) [THEN bspec, OF this]
  have r3: "\<exists>u i. map_of (snd (card_write two_pages shirt)) ''productUrl'' = Some (Str u)
          \<and> map_of (snd (card_write two_pages shirt)) ''imageUrl'' = Some (Str i)
          \<and> startswith u ''http'' \<and> startswith i ''http''" .
  show ?thesis
    using h1 h2 r1 r2 two_pages_main_writes r3 by simp
qed

section \<open>The fixed fields of a record\<close>

text \<open>
  C10. Every record a run of \<^verbatim>\<open>main\<close> writes has the nine fields \<^verbatim>\<open>name\<close>, \<^verbatim>\<open>brand\<close>,
  \<^verbatim>\<open>price\<close>, \<^verbatim>\<open>imageUrl\<close>, \<^verbatim>\<open>productUrl\<close>, \<^verbatim>\<open>category\<close>, \<^verbatim>\<open>color\<close>, \<^verbatim>\<open>retailer\<close> and
  \<^verbatim>\<open>scrapedAt\<close>; its brand is \<^verbatim>\<open>Country Road\<close>, its retailer is the dict with the id
  \<^verbatim>\<open>countryroad\<close> and the name \<^verbatim>\<open>Country Road\<close>, its colour is the empty string, and its
  category is one of the five labels of the table.
\<close>

theorem every_record_has_the_fixed_fields:
  "\<exists>tr. trace (main env s) = trace s @ tr
      \<and> (\<forall>w\<in>set (writes tr).
            map fst (snd w)
              = [''name'', ''brand'', ''price'', ''imageUrl'', ''productUrl'', ''category'',
                 ''color'', ''retailer'', ''scrapedAt'']
          \<and> map_of (snd w) ''brand'' = Some (Str ''Country Road'')
          \<and> map_of (snd w) ''retailer''
              = Some (Dict [(''id'', Str ''countryroad''), (''name'', Str ''Country Road'')])
          \<and> map_of (snd w) ''color'' = Some (Str [])
          \<and> (\<exists>c\<in>set categories. map_of (snd w) ''category'' = Some (Str c)))"
proof -
  from main_writes_from_cards [of env s] obtain tr where
    tr: "trace (main env s) = trace s @ tr" "\<forall>w\<in>set (writes tr). from_card env w"
    by blast
  have "\<forall>w\<in>set (writes tr).
            map fst (snd w)
              = [''name'', ''brand'', ''price'', ''imageUrl'', ''productUrl'', ''category'',
                 ''color'', ''retailer'', ''scrapedAt'']
          \<and> map_of (snd w) ''brand'' = Some (Str ''Country Road'')
          \<and> map_of (snd w) ''retailer''
              = Some (Dict [(''id'', Str ''countryroad''), (''name'', Str ''Country Road'')])
          \<and> map_of (snd w) ''color'' = Some (Str [])
          \<and> (\<exists>c\<in>set categories. map_of (snd w) ''category'' = Some (Str c))"
  proof
    fix w assume "w \<in> set (writes tr)"
    then have "from_card env w" using tr(2) by simp
    then show "map fst (snd w)
              = [''name'', ''brand'', ''price'', ''imageUrl'', ''productUrl'', ''category'',
                 ''color'', ''retailer'', ''scrapedAt'']
          \<and> map_of (snd w) ''brand'' = Some (Str ''Country Road'')
          \<and> map_of (snd w) ''retailer''
              = Some (Dict [(''id'', Str ''countryroad''), (''name'', Str ''Country Road'')])
          \<and> map_of (snd w) ''color'' = Some (Str [])
          \<and> (\<exists>c\<in>set categories. map_of (snd w) ''category'' = Some (Str c))"
      by (rule from_card_fields)
  qed
  with tr(1) show ?thesis by (intro exI [of _ tr] conjI)
qed

text \<open>The theorem at the run of \<^verbatim>\<open>main\<close> on the site \<open>two_pages\<close>.\<close>

theorem every_record_has_the_fixed_fields_witness:
  "(\<exists>rest. writes (trace (main two_pages s0)) = card_write two_pages shirt # rest)
   \<and> map fst (snd (card_write two_pages shirt))
       = [''name'', ''brand'', ''price'', ''imageUrl'', ''productUrl'', ''category'',
          ''color'', ''retailer'', ''scrapedAt'']
   \<and> map_of (snd (card_write two_pages shirt)) ''brand'' = Some (Str ''Country Road'')
   \<and> map_of (snd (card_write two_pages shirt)) ''retailer''
       = Some (Dict [(''id'', Str ''countryroad''), (''name'', Str ''Country Road'')])
   \<and> map_of (snd (card_write two_pages shirt)) ''color'' = Some (Str [])
   \<and> (\<exists>c\<in>set categories. map_of (snd (card_write two_pages shirt)) ''category'' = Some (Str c))"
proof -
  from every_record_has_the_fixed_fields [of two_pages s0] obtain tr where
    tr: "trace (main two_pages s0) = trace s0 @ tr"
        "\<forall>w\<in>set (writes tr).
            map fst (snd w)
              = [''name'', ''brand'', ''price'', ''imageUrl'', ''productUrl'', ''category'',
                 ''color'', ''retailer'', ''scrapedAt'']
          \<and> map_of (snd w) ''brand'' = Some (Str ''Country Road'')
          \<and> map_of (snd w) ''retailer''
              = Some (Dict [(''id'', Str ''countryroad''), (''name'', Str ''Country Road'')])
          \<and> map_of (snd w) ''color'' = Some (Str [])
          \<and> (\<exists>c\<in>set categories. map_of (snd w) ''category'' = Some (Str c))"
    by (elim exE conjE)
  from two_pages_main_writes obtain rest where
    rest: "writes (trace (main two_pages s0)) = card_write two_pages shirt # rest"
    by (elim exE)
  have "writes tr = card_write two_pages shirt # rest"
    using rest unfolding tr(1) by (simp add: s0_def)
  then have "card_write two_pages shirt \<in> set (writes tr)" by simp
  from tr(2) [THEN bspec, OF this] two_pages_main_writes
  show ?thesis by (intro conjI) (elim conjE, assumption)+
qed

end
